theory Spec2Isabelle
  imports Complex_Main
begin

section \<open>Arrays, exceptions and the convex program of \<open>EstimateWeights\<close>\<close>

text \<open>
  The module \<open>testbed.py\<close> works on numpy arrays of floats. A vector is a list of reals
  and a matrix a list of rows. Arithmetic on finite values is exact here: rounding,
  overflow and underflow of IEEE doubles are not modelled. An exception of the Python
  code is a value \<open>Inl e\<close>.
\<close>

datatype error = ValueError | IndexError | AttributeError | SolverError

type_synonym vec = "real list"
type_synonym matrix = "real list list"

text \<open>
  The second argument of \<open>EstimateWeights\<close> is either a one-dimensional array (the
  branch \<open>len(X_t.shape) == 1\<close>) or a two-dimensional one.
\<close>

datatype ndarray = Arr1 vec | Arr2 matrix

text \<open>What the subscript \<open>X_t[i, ]\<close> yields: an element of a one-dimensional array is a
  scalar, an element of a two-dimensional array is a row.\<close>

datatype operand = Scalar real | Vector vec

definition index_row :: "ndarray \<Rightarrow> nat \<Rightarrow> error + operand" where
  "index_row X_t i =
     (case X_t of
        Arr1 x \<Rightarrow> if i < length x then Inr (Scalar (x ! i)) else Inl IndexError
      | Arr2 X \<Rightarrow> if i < length X then Inr (Vector (X ! i)) else Inl IndexError)"

definition ncols :: "matrix \<Rightarrow> nat" where
  "ncols X = (case X of [] \<Rightarrow> 0 | r # _ \<Rightarrow> length r)"

text \<open>\<open>X_c.T\<close>: one row per covariate, one column per control unit.\<close>

definition transpose_m :: "matrix \<Rightarrow> matrix" where
  "transpose_m X = map (\<lambda>j. map (\<lambda>r. r ! j) X) [0..<ncols X]"

definition dot :: "vec \<Rightarrow> vec \<Rightarrow> real" where
  "dot u v = sum_list (map2 (*) u v)"

definition matvec :: "matrix \<Rightarrow> vec \<Rightarrow> vec" where
  "matvec A w = map (\<lambda>r. dot r w) A"

definition sum_squares :: "vec \<Rightarrow> real" where
  "sum_squares v = sum_list (map (\<lambda>x. x * x) v)"

text \<open>
  The three constraints of the source, \<open>0 <= w\<close>, \<open>w <= 1\<close> and
  \<open>cvx.sum_entries(w) == 1\<close>, as data; \<open>holds e c w\<close> reads a constraint with a
  tolerance \<open>e\<close> on each side (\<open>e = 0\<close>: exactly).
\<close>

datatype constr = LowerBound real | UpperBound real | SumEquals real

fun holds :: "real \<Rightarrow> constr \<Rightarrow> vec \<Rightarrow> bool" where
  "holds e (LowerBound c) w = list_all (\<lambda>x. c - e \<le> x) w"
| "holds e (UpperBound c) w = list_all (\<lambda>x. x \<le> c + e) w"
| "holds e (SumEquals c) w = (\<bar>sum_list w - c\<bar> \<le> e)"

text \<open>
  \<open>cvx.Problem(objective, constraints)\<close> for one treated unit: the variable
  \<open>w = cvx.Variable(N_c)\<close>, the objective \<open>sum_squares(coeff * w - target)\<close> and the
  constraints.
\<close>

record problem =
  nvar :: nat
  coeff :: matrix
  target :: vec
  constraints :: "constr list"

definition objective :: "problem \<Rightarrow> vec \<Rightarrow> real" where
  "objective p w = sum_squares (map2 (-) (matvec (coeff p) w) (target p))"

text \<open>
  The expression \<open>X_c.T * w - X_t[i, ]\<close>. The left operand has one entry per covariate.
  The library promotes a scalar operand (a Python number, or an array with a single
  element) to the shape of the other side, and refuses two different shapes neither of
  which is a scalar. The result is the pair of the coefficient matrix and the target
  after promotion.
\<close>

definition residual :: "matrix \<Rightarrow> operand \<Rightarrow> error + (matrix \<times> vec)" where
  "residual A t =
     (case t of
        Scalar c \<Rightarrow> Inr (A, replicate (length A) c)
      | Vector v \<Rightarrow>
          if length v = length A then Inr (A, v)
          else if length v = 1 then Inr (A, replicate (length A) (v ! 0))
          else if length A = 1 then Inr (replicate (length v) (A ! 0), v)
          else Inl ValueError)"

text \<open>
  \<open>prob.solve()\<close> is a call into the convex-optimisation library, a parameter of the
  model. What the caller can observe of it: the call raises, or it returns and leaves a
  status in \<open>prob.status\<close> and a value in \<open>w.value\<close>. \<open>Some v\<close> is a matrix value whose
  flattening \<open>getA1()\<close> is \<open>v\<close>; \<open>None\<close> is a value without that method (Python's \<open>None\<close>,
  which the library leaves when it has no solution, or a plain number, which it keeps for
  a variable with a single entry). The status
  \<open>OptimalInaccurate\<close> is the library's report of a solve that stopped short of its
  tolerance and still left a value. The exceptions the call can raise are not told apart.
\<close>

datatype status = Optimal | OptimalInaccurate | Infeasible | Unbounded

datatype outcome = Raised | Returned status "vec option"

type_synonym solver = "problem \<Rightarrow> outcome"

text \<open>Lines 79 to 85, up to the store into \<open>W_hat\<close>: the flattened \<open>w.value\<close>. The
  status and the returned optimal value are never read; \<open>getA1()\<close> on a value that has no
  such method raises \<open>AttributeError\<close>.\<close>

definition solve_unit :: "solver \<Rightarrow> matrix \<Rightarrow> ndarray \<Rightarrow> nat \<Rightarrow> error + vec" where
  "solve_unit solve X_c X_t i =
     (case index_row X_t i of
        Inl e \<Rightarrow> Inl e
      | Inr t \<Rightarrow>
         (case residual (transpose_m X_c) t of
            Inl e \<Rightarrow> Inl e
          | Inr (A, b) \<Rightarrow>
             (case solve \<lparr>nvar = length X_c, coeff = A, target = b,
                          constraints = [LowerBound 0, UpperBound 1, SumEquals 1]\<rparr> of
                Raised \<Rightarrow> Inl SolverError
              | Returned st None \<Rightarrow> Inl AttributeError
              | Returned st (Some v) \<Rightarrow> Inr v)))"

text \<open>The store \<open>W_hat[i, ] = v\<close> into a row of \<open>N_c\<close> entries: numpy copies a vector of
  that length, repeats a single element, and raises on any other length.\<close>

definition set_row :: "matrix \<Rightarrow> nat \<Rightarrow> nat \<Rightarrow> vec \<Rightarrow> error + matrix" where
  "set_row W N_c i v =
     (if i \<ge> length W then Inl IndexError
      else if length v = N_c then Inr (W[i := v])
      else if length v = 1 then Inr (W[i := replicate N_c (v ! 0)])
      else Inl ValueError)"

text \<open>The loop \<open>for i in xrange(N_t)\<close>, over the list of the indices still to do.\<close>

fun solve_units :: "solver \<Rightarrow> matrix \<Rightarrow> ndarray \<Rightarrow> nat list \<Rightarrow> matrix \<Rightarrow> error + matrix" where
  "solve_units solve X_c X_t [] W_hat = Inr W_hat"
| "solve_units solve X_c X_t (i # rest) W_hat =
     (case solve_unit solve X_c X_t i of
        Inl e \<Rightarrow> Inl e
      | Inr v \<Rightarrow>
         (case set_row W_hat (length X_c) i v of
            Inl e \<Rightarrow> Inl e
          | Inr W' \<Rightarrow> solve_units solve X_c X_t rest W'))"

text \<open>Lines 69 to 72: a one-dimensional \<open>X_t\<close> counts as one treated unit.\<close>

definition n_treated :: "ndarray \<Rightarrow> nat" where
  "n_treated X_t = (case X_t of Arr1 x \<Rightarrow> 1 | Arr2 X \<Rightarrow> length X)"

definition EstimateWeights :: "solver \<Rightarrow> matrix \<Rightarrow> ndarray \<Rightarrow> error + matrix" where
  "EstimateWeights solve X_c X_t =
     (let N_c = length X_c;
          N_t = n_treated X_t;
          W_hat = replicate N_t (replicate N_c 0)
      in solve_units solve X_c X_t [0..<N_t] W_hat)"

subsection \<open>What the library is trusted to do\<close>

text \<open>
  The solver is outside the repository, and the code asks it for no accuracy. Two
  contracts say what an accurate solver does. \<open>solver_feasible e\<close>: a value left in \<open>w.value\<close>
  has the shape of the variable and meets every constraint of the problem within \<open>e\<close>.
  \<open>solver_optimal d\<close>: its objective is within \<open>d\<close> of the objective of every point that
  meets the constraints exactly.
\<close>

definition solver_feasible :: "real \<Rightarrow> solver \<Rightarrow> bool" where
  "solver_feasible e solve =
     (\<forall>p st v. solve p = Returned st (Some v) \<longrightarrow>
        length v = nvar p \<and> list_all (\<lambda>c. holds e c v) (constraints p))"

definition feasible :: "problem \<Rightarrow> vec \<Rightarrow> bool" where
  "feasible p w = (length w = nvar p \<and> list_all (\<lambda>c. holds 0 c w) (constraints p))"

definition solver_optimal :: "real \<Rightarrow> solver \<Rightarrow> bool" where
  "solver_optimal d solve =
     (\<forall>p st v. solve p = Returned st (Some v) \<longrightarrow>
        length v = nvar p \<and> (\<forall>u. feasible p u \<longrightarrow> objective p v \<le> objective p u + d))"

text \<open>
  Solvers to run the model on. \<open>first_vertex\<close> proposes all the weight on the first
  control and reports the problem infeasible when that point violates a constraint.
  \<open>stalled\<close> stops early: it reports an inaccurate solution and leaves the uniform
  weights scaled by a half. \<open>certify g\<close> returns the guess \<open>g p\<close> when it meets the
  constraints and fits the target exactly, and raises otherwise.
\<close>

definition first_vertex :: solver where
  "first_vertex p =
     (let v = 1 # replicate (nvar p - 1) 0
      in if nvar p \<noteq> 0 \<and> list_all (\<lambda>c. holds 0 c v) (constraints p)
         then Returned Optimal (Some v) else Returned Infeasible None)"

definition stalled :: solver where
  "stalled p =
     Returned OptimalInaccurate (Some (replicate (nvar p) (1 / (2 * real (nvar p)))))"

definition certify :: "(problem \<Rightarrow> vec) \<Rightarrow> solver" where
  "certify g p =
     (if length (g p) = nvar p \<and> list_all (\<lambda>c. holds 0 c (g p)) (constraints p) \<and>
         objective p (g p) = 0
      then Returned Optimal (Some (g p)) else Raised)"

text \<open>
  \<open>relabel f solve\<close> is \<open>solve\<close> with every reported status \<open>st\<close> replaced by \<open>f st\<close>;
  \<open>table_solver\<close> answers the problems of a table and raises on every other one.
  \<open>unit_problem b\<close> is the program for two controls \<open>(1, 0)\<close> and \<open>(0, 1)\<close> and the
  target \<open>b\<close>.
\<close>

definition relabel :: "(status \<Rightarrow> status) \<Rightarrow> solver \<Rightarrow> solver" where
  "relabel f solve p = (case solve p of Raised \<Rightarrow> Raised | Returned st v \<Rightarrow> Returned (f st) v)"

definition table_solver :: "(problem \<times> vec) list \<Rightarrow> solver" where
  "table_solver tbl p =
     (case map_of tbl p of None \<Rightarrow> Raised | Some v \<Rightarrow> Returned Optimal (Some v))"

definition unit_problem :: "vec \<Rightarrow> problem" where
  "unit_problem b = \<lparr>nvar = 2, coeff = [[1, 0], [0, 1]], target = b,
                      constraints = [LowerBound 0, UpperBound 1, SumEquals 1]\<rparr>"

definition unit_table :: "(problem \<times> vec) list" where
  "unit_table = [(unit_problem [1, 1], [1 / 2, 1 / 2]), (unit_problem [1, 0], [1, 0])]"

text \<open>
  \<open>as_library solve\<close> is \<open>solve\<close> with the value of a variable that has a single entry kept
  as the library keeps it: as a plain number, which has no method \<open>getA1()\<close>.
\<close>

definition as_library :: "solver \<Rightarrow> solver" where
  "as_library solve p =
     (case solve p of
        Raised \<Rightarrow> Raised
      | Returned st None \<Rightarrow> Returned st None
      | Returned st (Some v) \<Rightarrow> if nvar p = 1 then Returned st None else Returned st (Some v))"

section \<open>The generator \<open>SimulateData\<close>\<close>

text \<open>
  The weights come out of a float division, which numpy does not guard: dividing by zero
  gives \<open>nan\<close> or an infinity and a warning, not an exception. An entry of \<open>W\<close> and of
  \<open>X_t\<close> is therefore a finite real or \<open>None\<close>, which stands for any value that is not
  finite; such a value stays not finite under addition and multiplication.
\<close>

type_synonym fval = "real option"
type_synonym fvec = "fval list"
type_synonym fmatrix = "fval list list"

definition fdiv :: "real \<Rightarrow> real \<Rightarrow> fval" where
  "fdiv x y = (if y = 0 then None else Some (x / y))"

definition fadd :: "fval \<Rightarrow> fval \<Rightarrow> fval" where
  "fadd a b = (case a of None \<Rightarrow> None | Some x \<Rightarrow> (case b of None \<Rightarrow> None | Some y \<Rightarrow> Some (x + y)))"

definition fmul :: "fval \<Rightarrow> fval \<Rightarrow> fval" where
  "fmul a b = (case a of None \<Rightarrow> None | Some x \<Rightarrow> (case b of None \<Rightarrow> None | Some y \<Rightarrow> Some (x * y)))"

text \<open>\<open>non_standardized / non_standardized.sum()\<close>, line 45.\<close>

definition standardize :: "vec \<Rightarrow> fvec" where
  "standardize vs = map (\<lambda>x. fdiv x (sum_list vs)) vs"

text \<open>
  The store \<open>W[i, random_index] = values\<close>: an index outside the row raises; the values
  are written in order at the listed columns (a single value is repeated), and any other
  length raises.
\<close>

definition put :: "'a list \<Rightarrow> nat list \<Rightarrow> 'a list \<Rightarrow> 'a list" where
  "put row idx vals = fold (\<lambda>(j, v) r. r[j := v]) (zip idx vals) row"

definition scatter :: "fmatrix \<Rightarrow> nat \<Rightarrow> nat list \<Rightarrow> fvec \<Rightarrow> error + fmatrix" where
  "scatter W i idx vals =
     (if i \<ge> length W \<or> \<not> list_all (\<lambda>j. j < length (W ! i)) idx then Inl IndexError
      else if length vals = length idx then Inr (W[i := put (W ! i) idx vals])
      else if length vals = 1 then Inr (W[i := put (W ! i) idx (replicate (length idx) (vals ! 0))])
      else Inl ValueError)"

text \<open>\<open>np.dot(W, X_c)\<close> for \<open>W\<close> with \<open>N_c\<close> columns, and the sum with the noise. Both raise
  on operands whose shapes do not fit; numpy's broadcasting of a sum of arrays of different
  shapes is not modelled, the two arrays added on line 48 have one shape.\<close>

definition fdot :: "fvec \<Rightarrow> vec \<Rightarrow> fval" where
  "fdot w x = foldr (\<lambda>(a, b) acc. fadd (fmul a (Some b)) acc) (zip w x) (Some 0)"

definition np_dot :: "nat \<Rightarrow> fmatrix \<Rightarrow> matrix \<Rightarrow> error + fmatrix" where
  "np_dot N_c W X =
     (if length X = N_c then Inr (map (\<lambda>w. map (\<lambda>c. fdot w c) (transpose_m X)) W)
      else Inl ValueError)"

definition np_add :: "fmatrix \<Rightarrow> matrix \<Rightarrow> error + fmatrix" where
  "np_add P E =
     (if length P = length E \<and> list_all2 (\<lambda>p e. length p = length e) P E
      then Inr (map2 (map2 (\<lambda>a b. fadd a (Some b))) P E)
      else Inl ValueError)"

text \<open>
  The random draws come from two process-wide generators, numpy's (\<open>np.random\<close>, state
  \<open>'s\<close>) and the one of Python's module \<open>random\<close> (state \<open>'t\<close>). Their functions are
  parameters of the model; each takes the state of its generator and returns the advanced
  one. \<open>uniform\<close> cannot raise; the others raise on arguments they refuse.
  The arguments \<open>l\<close> and \<open>u\<close> are natural numbers here; \<open>Sigma_c\<close> and \<open>Gamma_e\<close> are the
  arguments \<open>Sigma\<close> and \<open>Gamma\<close> of the source.
\<close>

record ('s, 't) generators =
  multivariate_normal :: "vec \<Rightarrow> matrix \<Rightarrow> nat \<Rightarrow> 's \<Rightarrow> error + (matrix \<times> 's)"
  randint :: "nat \<Rightarrow> nat \<Rightarrow> nat \<Rightarrow> 's \<Rightarrow> error + (nat list \<times> 's)"
  uniform :: "nat \<Rightarrow> 's \<Rightarrow> vec \<times> 's"
  sample :: "nat \<Rightarrow> nat \<Rightarrow> 't \<Rightarrow> error + (nat list \<times> 't)"

text \<open>The loop of lines 37 to 45, over the indices still to do.\<close>

fun fill_rows :: "('s, 't) generators \<Rightarrow> nat \<Rightarrow> nat list \<Rightarrow> nat list \<Rightarrow> fmatrix \<Rightarrow> 's \<times> 't
    \<Rightarrow> error + (fmatrix \<times> 's \<times> 't)" where
  "fill_rows g N_c n [] W st = Inr (W, st)"
| "fill_rows g N_c n (i # rest) W st =
     (if i \<ge> length n then Inl IndexError
      else case sample g N_c (n ! i) (snd st) of
        Inl e \<Rightarrow> Inl e
      | Inr (random_index, t') \<Rightarrow>
         (case uniform g (n ! i) (fst st) of
            (non_standardized, s') \<Rightarrow>
              (case scatter W i random_index (standardize non_standardized) of
                 Inl e \<Rightarrow> Inl e
               | Inr W' \<Rightarrow> fill_rows g N_c n rest W' (s', t'))))"

definition SimulateData :: "('s, 't) generators \<Rightarrow> nat \<Rightarrow> nat \<Rightarrow> vec \<Rightarrow> matrix \<Rightarrow> nat \<Rightarrow> nat
    \<Rightarrow> matrix \<Rightarrow> 's \<times> 't \<Rightarrow> error + ((matrix \<times> fmatrix \<times> fmatrix) \<times> 's \<times> 't)" where
  "SimulateData g N_c N_t mu Sigma_c l u Gamma_e st =
     (case multivariate_normal g mu Sigma_c N_c (fst st) of
        Inl e \<Rightarrow> Inl e
      | Inr (X_c, s1) \<Rightarrow>
     (case randint g l u N_t s1 of
        Inl e \<Rightarrow> Inl e
      | Inr (n, s2) \<Rightarrow>
     (case fill_rows g N_c n [0..<N_t] (replicate N_t (replicate N_c (Some 0))) (s2, snd st) of
        Inl e \<Rightarrow> Inl e
      | Inr (W, s3, t1) \<Rightarrow>
     (case np_dot N_c W X_c of
        Inl e \<Rightarrow> Inl e
      | Inr P \<Rightarrow>
     (case multivariate_normal g (replicate (length mu) 0) Gamma_e N_t s3 of
        Inl e \<Rightarrow> Inl e
      | Inr (noise, s4) \<Rightarrow>
     (case np_add P noise of
        Inl e \<Rightarrow> Inl e
      | Inr X_t \<Rightarrow> Inr ((X_c, X_t, W), s4, t1)))))))"

subsection \<open>What the generators are trusted to do\<close>

text \<open>
  The documented ranges and shapes of the four library functions: the normal sampler
  returns \<open>size\<close> rows of the length of the mean; \<open>randint\<close> returns \<open>size\<close> integers in the
  half-open range from \<open>low\<close> to \<open>high\<close>; \<open>uniform\<close> returns \<open>size\<close> values in the half-open
  range from 0 to 1; \<open>sample\<close> returns \<open>k\<close> distinct elements of the population
  \<open>xrange(N_c)\<close>.
\<close>

definition generators_ok :: "('s, 't) generators \<Rightarrow> bool" where
  "generators_ok g =
     ((\<forall>mean cov sz s X s'. multivariate_normal g mean cov sz s = Inr (X, s') \<longrightarrow>
         length X = sz \<and> list_all (\<lambda>r. length r = length mean) X) \<and>
      (\<forall>low high sz s ns s'. randint g low high sz s = Inr (ns, s') \<longrightarrow>
         length ns = sz \<and> list_all (\<lambda>k. low \<le> k \<and> k < high) ns) \<and>
      (\<forall>sz s vs s'. uniform g sz s = (vs, s') \<longrightarrow>
         length vs = sz \<and> list_all (\<lambda>x. 0 \<le> x \<and> x < 1) vs) \<and>
      (\<forall>N k t idx t'. sample g N k t = Inr (idx, t') \<longrightarrow>
         length idx = k \<and> distinct idx \<and> list_all (\<lambda>j. j < N) idx))"

text \<open>
  Generators to run the model on: the state of each is the list of the draws it will
  return, in order. A call takes the next draw when it has the requested shape and range;
  the samplers that can raise do so otherwise, and \<open>uniform\<close> returns halves.
\<close>

record np_state =
  normal_draws :: "matrix list"
  integer_draws :: "nat list list"
  uniform_draws :: "vec list"

definition replay_normal :: "vec \<Rightarrow> matrix \<Rightarrow> nat \<Rightarrow> np_state \<Rightarrow> error + (matrix \<times> np_state)" where
  "replay_normal mean cov sz s =
     (case normal_draws s of
        [] \<Rightarrow> Inl ValueError
      | X # rest \<Rightarrow>
          if length X = sz \<and> list_all (\<lambda>r. length r = length mean) X
          then Inr (X, s\<lparr>normal_draws := rest\<rparr>) else Inl ValueError)"

definition replay_randint :: "nat \<Rightarrow> nat \<Rightarrow> nat \<Rightarrow> np_state \<Rightarrow> error + (nat list \<times> np_state)" where
  "replay_randint low high sz s =
     (case integer_draws s of
        [] \<Rightarrow> Inl ValueError
      | ns # rest \<Rightarrow>
          if length ns = sz \<and> list_all (\<lambda>k. low \<le> k \<and> k < high) ns
          then Inr (ns, s\<lparr>integer_draws := rest\<rparr>) else Inl ValueError)"

definition replay_uniform :: "nat \<Rightarrow> np_state \<Rightarrow> vec \<times> np_state" where
  "replay_uniform sz s =
     (case uniform_draws s of
        [] \<Rightarrow> (replicate sz (1 / 2), s)
      | vs # rest \<Rightarrow>
          if length vs = sz \<and> list_all (\<lambda>x. 0 \<le> x \<and> x < 1) vs
          then (vs, s\<lparr>uniform_draws := rest\<rparr>)
          else (replicate sz (1 / 2), s\<lparr>uniform_draws := rest\<rparr>))"

definition replay_sample :: "nat \<Rightarrow> nat \<Rightarrow> nat list list \<Rightarrow> error + (nat list \<times> nat list list)" where
  "replay_sample N k t =
     (case t of
        [] \<Rightarrow> Inl ValueError
      | idx # rest \<Rightarrow>
          if length idx = k \<and> distinct idx \<and> list_all (\<lambda>j. j < N) idx
          then Inr (idx, rest) else Inl ValueError)"

definition replay :: "(np_state, nat list list) generators" where
  "replay = \<lparr>multivariate_normal = replay_normal, randint = replay_randint,
             uniform = replay_uniform, sample = replay_sample\<rparr>"



section \<open>Arrays as objects in memory\<close>

text \<open>
  Python passes arrays by reference and numpy writes into them in place. To say what a
  call leaves unchanged, the arrays live in a memory: a map from addresses to arrays and
  the next address that \<open>np.zeros\<close> will hand out. \<open>EstimateWeights_at\<close> is
  \<open>EstimateWeights\<close> on the addresses of its arguments: every iteration reads \<open>X_c\<close> and
  \<open>X_t\<close> through their addresses and stores one row into the array at the address of
  \<open>W_hat\<close>. The transposed view \<open>X_c.T\<close>, the row \<open>X_t[i, ]\<close> and the solver only read. An
  address that holds no array, or a one-dimensional \<open>X_c\<close>, is outside the model and
  reported as \<open>ValueError\<close>.
\<close>

type_synonym addr = nat

record memory =
  cells :: "addr \<Rightarrow> ndarray option"
  next_free :: addr

definition well_formed :: "memory \<Rightarrow> bool" where
  "well_formed h = (\<forall>a. next_free h \<le> a \<longrightarrow> cells h a = None)"

definition np_zeros :: "nat \<Rightarrow> nat \<Rightarrow> memory \<Rightarrow> addr \<times> memory" where
  "np_zeros r c h =
     (next_free h,
      h\<lparr>cells := (cells h)(next_free h \<mapsto> Arr2 (replicate r (replicate c 0))),
        next_free := Suc (next_free h)\<rparr>)"

fun solve_units_at :: "solver \<Rightarrow> addr \<Rightarrow> addr \<Rightarrow> addr \<Rightarrow> nat list \<Rightarrow> memory
    \<Rightarrow> (error + unit) \<times> memory" where
  "solve_units_at solve xc xt wh [] h = (Inr (), h)"
| "solve_units_at solve xc xt wh (i # rest) h =
     (case cells h xc of
        Some (Arr2 X_c) \<Rightarrow>
          (case cells h xt of
             Some X_t \<Rightarrow>
               (case cells h wh of
                  Some (Arr2 W_hat) \<Rightarrow>
                    (case solve_unit solve X_c X_t i of
                       Inl e \<Rightarrow> (Inl e, h)
                     | Inr v \<Rightarrow>
                        (case set_row W_hat (length X_c) i v of
                           Inl e \<Rightarrow> (Inl e, h)
                         | Inr W' \<Rightarrow>
                             solve_units_at solve xc xt wh rest
                               (h\<lparr>cells := (cells h)(wh \<mapsto> Arr2 W')\<rparr>)))
                | _ \<Rightarrow> (Inl ValueError, h))
           | None \<Rightarrow> (Inl ValueError, h))
      | _ \<Rightarrow> (Inl ValueError, h))"

definition EstimateWeights_at :: "solver \<Rightarrow> addr \<Rightarrow> addr \<Rightarrow> memory \<Rightarrow> (error + addr) \<times> memory" where
  "EstimateWeights_at solve xc xt h =
     (case cells h xc of
        Some (Arr2 X_c) \<Rightarrow>
          (case cells h xt of
             Some X_t \<Rightarrow>
               (let N_c = length X_c;
                    N_t = n_treated X_t;
                    (wh, h1) = np_zeros N_t N_c h
                in case solve_units_at solve xc xt wh [0..<N_t] h1 of
                     (Inl e, h2) \<Rightarrow> (Inl e, h2)
                   | (Inr _, h2) \<Rightarrow> (Inr wh, h2))
           | None \<Rightarrow> (Inl ValueError, h))
      | _ \<Rightarrow> (Inl ValueError, h))"

text \<open>A memory to run the model on: \<open>X_c\<close> at address 0, \<open>X_t\<close> at address 1.\<close>

definition two_arrays :: "matrix \<Rightarrow> ndarray \<Rightarrow> memory" where
  "two_arrays X_c X_t =
     \<lparr>cells = (\<lambda>a. if a = 0 then Some (Arr2 X_c) else if a = 1 then Some X_t else None),
      next_free = 2\<rparr>"

section \<open>Properties of \<open>EstimateWeights\<close>\<close>

subsection \<open>The loop writes one solver value per row\<close>

lemma set_row_Inr:
  "set_row W n i v = Inr W' \<Longrightarrow>
     i < length W \<and> length W' = length W \<and> (\<forall>j. j \<noteq> i \<longrightarrow> W' ! j = W ! j) \<and>
     ((length v = n \<and> W' ! i = v) \<or> (length v = 1 \<and> W' ! i = replicate n (v ! 0)))"
  by (auto simp: set_row_def split: if_splits)

lemma solve_units_rows:
  "solve_units solve X_c X_t todo W = Inr W' \<Longrightarrow>
     length W' = length W \<and>
     (\<forall>j<length W.
        (j \<in> set todo \<longrightarrow>
           (\<exists>v. solve_unit solve X_c X_t j = Inr v \<and>
                ((length v = length X_c \<and> W' ! j = v) \<or>
                 (length v = 1 \<and> W' ! j = replicate (length X_c) (v ! 0))))) \<and>
        (j \<notin> set todo \<longrightarrow> W' ! j = W ! j))"
proof (induction todo arbitrary: W)
  case Nil
  then show ?case by simp
next
  case (Cons i rest)
  from Cons.prems obtain v W1 where
    v: "solve_unit solve X_c X_t i = Inr v" and
    W1: "set_row W (length X_c) i v = Inr W1" and
    rec: "solve_units solve X_c X_t rest W1 = Inr W'"
    by (auto split: sum.splits)
  note s = set_row_Inr [OF W1]
  note ih = Cons.IH [OF rec]
  show ?case
  proof (intro conjI allI impI)
    show "length W' = length W" using ih s by simp
  next
    fix j assume j: "j < length W" and m: "j \<in> set (i # rest)"
    show "\<exists>v. solve_unit solve X_c X_t j = Inr v \<and>
                ((length v = length X_c \<and> W' ! j = v) \<or>
                 (length v = 1 \<and> W' ! j = replicate (length X_c) (v ! 0)))"
    proof (cases "j \<in> set rest")
      case True
      then show ?thesis using ih j s by simp
    next
      case False
      then have "j = i" using m by simp
      moreover have "W' ! j = W1 ! j" using ih j s False by simp
      ultimately show ?thesis using v s by auto
    qed
  next
    fix j assume j: "j < length W" and m: "j \<notin> set (i # rest)"
    then show "W' ! j = W ! j" using ih s by simp
  qed
qed

lemma EstimateWeights_rows:
  assumes "EstimateWeights solve X_c X_t = Inr W"
  shows "length W = n_treated X_t \<and>
         (\<forall>j<length W. \<exists>v. solve_unit solve X_c X_t j = Inr v \<and>
                ((length v = length X_c \<and> W ! j = v) \<or>
                 (length v = 1 \<and> W ! j = replicate (length X_c) (v ! 0))))"
  using solve_units_rows [OF assms [unfolded EstimateWeights_def Let_def]]
  by simp

text \<open>What \<open>solve_unit\<close> returns is a value the solver left for a problem with the
  variable and the constraints of the source.\<close>

lemma solve_unit_Inr:
  assumes "solve_unit solve X_c X_t i = Inr v"
  shows "\<exists>t A b st. index_row X_t i = Inr t \<and> residual (transpose_m X_c) t = Inr (A, b) \<and>
           solve \<lparr>nvar = length X_c, coeff = A, target = b,
                  constraints = [LowerBound 0, UpperBound 1, SumEquals 1]\<rparr>
             = Returned st (Some v)"
  using assms
  by (auto simp: solve_unit_def split: sum.splits outcome.splits option.splits)

lemma feasible_unit:
  assumes "solver_feasible e solve" and "solve_unit solve X_c X_t i = Inr v"
  shows "length v = length X_c \<and> list_all (\<lambda>x. - e \<le> x) v \<and> list_all (\<lambda>x. x \<le> 1 + e) v \<and>
         \<bar>sum_list v - 1\<bar> \<le> e"
proof -
  from solve_unit_Inr [OF assms(2)] obtain A b st where
    "solve \<lparr>nvar = length X_c, coeff = A, target = b,
            constraints = [LowerBound 0, UpperBound 1, SumEquals 1]\<rparr> = Returned st (Some v)"
    by blast
  with assms(1) show ?thesis
    unfolding solver_feasible_def by fastforce
qed

lemma stored_row:
  assumes "EstimateWeights solve X_c X_t = Inr W" and "j < length W"
    and "\<And>v. solve_unit solve X_c X_t j = Inr v \<Longrightarrow> length v = length X_c"
  shows "solve_unit solve X_c X_t j = Inr (W ! j)"
proof -
  from EstimateWeights_rows [OF assms(1)] assms(2) obtain v where
    v: "solve_unit solve X_c X_t j = Inr v" and
    c: "(length v = length X_c \<and> W ! j = v) \<or> (length v = 1 \<and> W ! j = replicate (length X_c) (v ! 0))"
    by blast
  from assms(3) [OF v] have l: "length v = length X_c" .
  have "W ! j = v"
  proof (rule disjE [OF c])
    assume "length v = length X_c \<and> W ! j = v" then show ?thesis by simp
  next
    assume a: "length v = 1 \<and> W ! j = replicate (length X_c) (v ! 0)"
    then have "length X_c = 1" using l by simp
    then have "replicate (length X_c) (v ! 0) = v" using a
      by (cases v) auto
    then show ?thesis using a by simp
  qed
  then show ?thesis using v by simp
qed

lemma feasible_rows:
  assumes "solver_feasible e solve" and "EstimateWeights solve X_c X_t = Inr W" and "j < length W"
  shows "solve_unit solve X_c X_t j = Inr (W ! j)"
  using stored_row [OF assms(2,3)] feasible_unit [OF assms(1)] by blast

lemma holds_mono: "holds 0 c v \<Longrightarrow> 0 \<le> e \<Longrightarrow> holds e c v"
  by (cases c) (auto simp: list_all_iff intro: order_trans)

lemma first_vertex_feasible: "0 \<le> e \<Longrightarrow> solver_feasible e first_vertex"
  unfolding solver_feasible_def first_vertex_def Let_def
  by (auto simp: list_all_iff holds_mono split: if_splits)

subsection \<open>Rows of the estimate are what the solver left\<close>

lemma solve_unit_batch:
  assumes "solve_unit solve X_c (Arr2 X_t) i = Inr v"
  shows "i < length X_t \<and>
         (\<exists>A b st. residual (transpose_m X_c) (Vector (X_t ! i)) = Inr (A, b) \<and>
           solve \<lparr>nvar = length X_c, coeff = A, target = b,
                  constraints = [LowerBound 0, UpperBound 1, SumEquals 1]\<rparr>
             = Returned st (Some v))"
  using assms
  by (auto simp: solve_unit_def index_row_def
      split: sum.splits outcome.splits option.splits if_splits)

lemma EstimateWeights_batch_rows:
  assumes "EstimateWeights solve X_c (Arr2 X_t) = Inr W_hat"
  shows "length W_hat = length X_t \<and>
         (\<forall>i<length X_t. length (W_hat ! i) = length X_c \<and>
            (\<exists>A b st v.
               residual (transpose_m X_c) (Vector (X_t ! i)) = Inr (A, b) \<and>
               solve \<lparr>nvar = length X_c, coeff = A, target = b,
                      constraints = [LowerBound 0, UpperBound 1, SumEquals 1]\<rparr>
                 = Returned st (Some v) \<and>
               ((length v = length X_c \<and> W_hat ! i = v) \<or>
                (length v = 1 \<and> W_hat ! i = replicate (length X_c) (v ! 0)))))"
proof (intro conjI allI impI)
  show len: "length W_hat = length X_t"
    using EstimateWeights_rows [OF assms] by (simp add: n_treated_def)
  fix i assume i: "i < length X_t"
  with EstimateWeights_rows [OF assms] len obtain v where
    v: "solve_unit solve X_c (Arr2 X_t) i = Inr v" and
    c: "(length v = length X_c \<and> W_hat ! i = v) \<or>
        (length v = 1 \<and> W_hat ! i = replicate (length X_c) (v ! 0))"
    by auto
  from c show "length (W_hat ! i) = length X_c" by auto
  from solve_unit_batch [OF v] c
  show "\<exists>A b st v.
               residual (transpose_m X_c) (Vector (X_t ! i)) = Inr (A, b) \<and>
               solve \<lparr>nvar = length X_c, coeff = A, target = b,
                      constraints = [LowerBound 0, UpperBound 1, SumEquals 1]\<rparr>
                 = Returned st (Some v) \<and>
               ((length v = length X_c \<and> W_hat ! i = v) \<or>
                (length v = 1 \<and> W_hat ! i = replicate (length X_c) (v ! 0)))"
    by blast
qed

text \<open>
  Claim C1, as the code has it. When \<open>EstimateWeights\<close> returns for a two-dimensional
  \<open>X_t\<close> with \<open>N_t\<close> rows, the result has \<open>N_t\<close> rows of \<open>N_c\<close> entries, and row \<open>i\<close> is the
  value the solver left for the problem of unit \<open>i\<close> (a single number repeated \<open>N_c\<close>
  times), whatever status it reported: nothing is checked. So row \<open>i\<close> sums to 1 within
  \<open>e\<close> and has its entries in \<open>[-e, 1 + e]\<close> for every \<open>e\<close> within which that value has
  \<open>N_c\<close> entries and meets the three constraints.
\<close>

theorem EstimateWeights_rows_are_solver_values:
  assumes "EstimateWeights solve X_c (Arr2 X_t) = Inr W_hat"
  shows "length W_hat = length X_t \<and>
         (\<forall>i<length X_t. length (W_hat ! i) = length X_c \<and>
            (\<exists>A b st v.
               residual (transpose_m X_c) (Vector (X_t ! i)) = Inr (A, b) \<and>
               solve \<lparr>nvar = length X_c, coeff = A, target = b,
                      constraints = [LowerBound 0, UpperBound 1, SumEquals 1]\<rparr>
                 = Returned st (Some v) \<and>
               (W_hat ! i = v \<or> (length v = 1 \<and> W_hat ! i = replicate (length X_c) (v ! 0))) \<and>
               (\<forall>e. length v = length X_c \<and>
                    list_all (\<lambda>c. holds e c v) [LowerBound 0, UpperBound 1, SumEquals 1] \<longrightarrow>
                    \<bar>sum_list (W_hat ! i) - 1\<bar> \<le> e \<and>
                    (\<forall>x \<in> set (W_hat ! i). - e \<le> x \<and> x \<le> 1 + e))))"
proof (intro conjI allI impI)
  show len: "length W_hat = length X_t"
    using EstimateWeights_rows [OF assms] by (simp add: n_treated_def)
  fix i assume i: "i < length X_t"
  with EstimateWeights_rows [OF assms] len obtain v where
    v: "solve_unit solve X_c (Arr2 X_t) i = Inr v" and
    c: "(length v = length X_c \<and> W_hat ! i = v) \<or>
        (length v = 1 \<and> W_hat ! i = replicate (length X_c) (v ! 0))"
    by auto
  from c show "length (W_hat ! i) = length X_c" by auto
  from solve_unit_batch [OF v] obtain A b st where
    r: "residual (transpose_m X_c) (Vector (X_t ! i)) = Inr (A, b)" and
    s: "solve \<lparr>nvar = length X_c, coeff = A, target = b,
            constraints = [LowerBound 0, UpperBound 1, SumEquals 1]\<rparr> = Returned st (Some v)"
    by blast
  have w: "W_hat ! i = v \<or> (length v = 1 \<and> W_hat ! i = replicate (length X_c) (v ! 0))"
    using c by blast
  have t: "\<forall>e. length v = length X_c \<and>
                    list_all (\<lambda>c. holds e c v) [LowerBound 0, UpperBound 1, SumEquals 1] \<longrightarrow>
                    \<bar>sum_list (W_hat ! i) - 1\<bar> \<le> e \<and>
                    (\<forall>x \<in> set (W_hat ! i). - e \<le> x \<and> x \<le> 1 + e)"
  proof (intro allI impI)
    fix e
    assume a: "length v = length X_c \<and>
                    list_all (\<lambda>c. holds e c v) [LowerBound 0, UpperBound 1, SumEquals 1]"
    have eq: "W_hat ! i = v"
    proof (rule disjE [OF c])
      assume "length v = length X_c \<and> W_hat ! i = v" then show ?thesis by simp
    next
      assume b: "length v = 1 \<and> W_hat ! i = replicate (length X_c) (v ! 0)"
      then have "length X_c = 1" using a by simp
      then have "replicate (length X_c) (v ! 0) = v" using b by (cases v) auto
      then show ?thesis using b by simp
    qed
    from a show "\<bar>sum_list (W_hat ! i) - 1\<bar> \<le> e \<and>
                    (\<forall>x \<in> set (W_hat ! i). - e \<le> x \<and> x \<le> 1 + e)"
      unfolding eq by (auto simp: list_all_iff)
  qed
  from r s w t show "\<exists>A b st v.
               residual (transpose_m X_c) (Vector (X_t ! i)) = Inr (A, b) \<and>
               solve \<lparr>nvar = length X_c, coeff = A, target = b,
                      constraints = [LowerBound 0, UpperBound 1, SumEquals 1]\<rparr>
                 = Returned st (Some v) \<and>
               (W_hat ! i = v \<or> (length v = 1 \<and> W_hat ! i = replicate (length X_c) (v ! 0))) \<and>
               (\<forall>e. length v = length X_c \<and>
                    list_all (\<lambda>c. holds e c v) [LowerBound 0, UpperBound 1, SumEquals 1] \<longrightarrow>
                    \<bar>sum_list (W_hat ! i) - 1\<bar> \<le> e \<and>
                    (\<forall>x \<in> set (W_hat ! i). - e \<le> x \<and> x \<le> 1 + e))"
    by blast
qed

theorem EstimateWeights_rows_are_solver_values_witness:
  "EstimateWeights first_vertex [[0, 0], [1, 1]] (Arr2 [[1, 0], [3, 4], [5, 5]])
     = Inr [[1, 0], [1, 0], [1, 0]] \<and>
   first_vertex \<lparr>nvar = 2, coeff = [[0, 1], [0, 1]], target = [3, 4],
                  constraints = [LowerBound 0, UpperBound 1, SumEquals 1]\<rparr>
     = Returned Optimal (Some [1, 0]) \<and>
   list_all (\<lambda>c. holds (1 / 10 ^ 6) c [1, 0]) [LowerBound 0, UpperBound 1, SumEquals 1] \<and>
   length [[1, 0], [1, 0], [1, 0 :: real]] = length [[1, 0], [3, 4], [5, 5 :: real]]"
proof -
  have h: "EstimateWeights first_vertex [[0, 0], [1, 1]] (Arr2 [[1, 0], [3, 4], [5, 5]])
              = Inr [[1, 0], [1, 0], [1, 0]]"
    by code_simp
  have s: "first_vertex \<lparr>nvar = 2, coeff = [[0, 1], [0, 1]], target = [3, 4],
                  constraints = [LowerBound 0, UpperBound 1, SumEquals 1]\<rparr>
     = Returned Optimal (Some [1, 0])"
    by code_simp
  have t: "list_all (\<lambda>c. holds (1 / 10 ^ 6) c [1, 0]) [LowerBound 0, UpperBound 1, SumEquals 1]"
    by simp
  show ?thesis
    using h s t EstimateWeights_rows_are_solver_values [OF h] by simp
qed

text \<open>
  Claim C1 as stated fails: the call returns the rows of a solver that stopped early, and
  they sum to a half.
\<close>

theorem EstimateWeights_off_simplex_counterexample:
  "EstimateWeights stalled [[1, 0], [0, 1], [2, 2]] (Arr2 [[1, 0], [0, 1]])
     = Inr [[1 / 6, 1 / 6, 1 / 6], [1 / 6, 1 / 6, 1 / 6]] \<and>
   \<not> \<bar>sum_list [1 / 6, 1 / 6, 1 / 6 :: real] - 1\<bar> \<le> 1 / 10 ^ 6"
proof -
  have "EstimateWeights stalled [[1, 0], [0, 1], [2, 2]] (Arr2 [[1, 0], [0, 1]])
     = Inr [[1 / 6, 1 / 6, 1 / 6], [1 / 6, 1 / 6, 1 / 6]]"
    by code_simp
  then show ?thesis by simp
qed

subsection \<open>A single control\<close>

lemma first_unit_fails:
  assumes "0 < n_treated X_t" and "solve_unit solve X_c X_t 0 = Inl e"
  shows "EstimateWeights solve X_c X_t = Inl e"
  using assms by (simp add: EstimateWeights_def upt_conv_Cons)

lemma as_library_plain: "as_library solve p = Returned st (Some v) \<Longrightarrow> nvar p \<noteq> 1"
  by (auto simp: as_library_def split: outcome.splits option.splits if_splits)

text \<open>
  Claim C7 fails on the code. With a single control the variable \<open>w\<close> has one entry, and
  the library keeps the value of such a variable as a plain number, not as a matrix. Then
  \<open>w.value.getA1()\<close> on line 85 raises for the first treated unit: every call with
  \<open>N_c = 1\<close> and at least one treated unit raises and returns no weight, and it raises
  \<open>AttributeError\<close> whenever the solve of the first unit returns.
\<close>

theorem EstimateWeights_single_control_raises:
  assumes "\<forall>p st v. solve p = Returned st (Some v) \<longrightarrow> nvar p \<noteq> 1"
    and "length X_c = 1" and "0 < n_treated X_t"
  shows "(\<exists>e. EstimateWeights solve X_c X_t = Inl e) \<and>
         (\<forall>t A b st val. index_row X_t 0 = Inr t \<and> residual (transpose_m X_c) t = Inr (A, b) \<and>
             solve \<lparr>nvar = 1, coeff = A, target = b,
                    constraints = [LowerBound 0, UpperBound 1, SumEquals 1]\<rparr> = Returned st val \<longrightarrow>
             EstimateWeights solve X_c X_t = Inl AttributeError)"
proof (intro conjI allI impI)
  have no: "solve_unit solve X_c X_t 0 \<noteq> Inr v" for v
  proof
    assume "solve_unit solve X_c X_t 0 = Inr v"
    from solve_unit_Inr [OF this] assms(1,2) show False by fastforce
  qed
  then obtain e where "solve_unit solve X_c X_t 0 = Inl e"
    by (cases "solve_unit solve X_c X_t 0") auto
  from first_unit_fails [OF assms(3) this]
  show "\<exists>e. EstimateWeights solve X_c X_t = Inl e" by blast
  fix t A b st val
  assume a: "index_row X_t 0 = Inr t \<and> residual (transpose_m X_c) t = Inr (A, b) \<and>
             solve \<lparr>nvar = 1, coeff = A, target = b,
                    constraints = [LowerBound 0, UpperBound 1, SumEquals 1]\<rparr> = Returned st val"
  have "val = None"
  proof (cases val)
    case None then show ?thesis .
  next
    case (Some v)
    with a assms(1) show ?thesis by fastforce
  qed
  with a assms(2) have "solve_unit solve X_c X_t 0 = Inl AttributeError"
    by (simp add: solve_unit_def)
  from first_unit_fails [OF assms(3) this]
  show "EstimateWeights solve X_c X_t = Inl AttributeError" .
qed

theorem EstimateWeights_single_control_raises_witness:
  "length [[2, 3 :: real]] = 1 \<and> 0 < n_treated (Arr2 [[5, 7], [0, 0]]) \<and>
   as_library first_vertex \<lparr>nvar = 1, coeff = [[2], [3]], target = [5, 7],
       constraints = [LowerBound 0, UpperBound 1, SumEquals 1]\<rparr> = Returned Optimal None \<and>
   EstimateWeights (as_library first_vertex) [[2, 3]] (Arr2 [[5, 7], [0, 0]]) = Inl AttributeError \<and>
   EstimateWeights (as_library first_vertex) [[2, 3]] (Arr1 [5, 7]) = Inl AttributeError"
proof -
  have h1: "\<forall>p st v. as_library first_vertex p = Returned st (Some v) \<longrightarrow> nvar p \<noteq> 1"
    using as_library_plain by blast
  have h2: "length [[2, 3 :: real]] = 1" by simp
  have h3: "0 < n_treated (Arr2 [[5, 7], [0, 0]])" by (simp add: n_treated_def)
  have s: "as_library first_vertex \<lparr>nvar = 1, coeff = [[2], [3]], target = [5, 7],
       constraints = [LowerBound 0, UpperBound 1, SumEquals 1]\<rparr> = Returned Optimal None"
    by code_simp
  have v: "EstimateWeights (as_library first_vertex) [[2, 3]] (Arr1 [5, 7]) = Inl AttributeError"
    by code_simp
  show ?thesis
    using h2 h3 s v EstimateWeights_single_control_raises [OF h1 h2 h3] 
    by (simp add: index_row_def residual_def transpose_m_def ncols_def upt_rec)
qed

subsection \<open>Fit of noiseless data\<close>

lemma sum_squares_nonneg: "0 \<le> sum_squares v"
  unfolding sum_squares_def by (induction v) auto

lemma objective_nonneg: "0 \<le> objective p w"
  unfolding objective_def by (rule sum_squares_nonneg)

lemma sum_squares_self: "sum_squares (map2 (-) v v) = 0"
  unfolding sum_squares_def by (induction v) auto

text \<open>
  Claim C5, as the code has it. Let every row of \<open>W\<close> lie on the simplex and let
  \<open>X_t = W \<cdot> X_c\<close> exactly (row \<open>i\<close> of \<open>X_t\<close> is \<open>X_c.T\<close> applied to row \<open>i\<close> of \<open>W\<close>). Then
  row \<open>i\<close> of \<open>W\<close> meets the constraints of the problem of unit \<open>i\<close> with objective 0, the
  least possible, and the squared reconstruction error of the returned row \<open>i\<close> is the
  objective at that row, which is the value the solver left. The error is at most \<open>d\<close>
  when that row is within \<open>d\<close> of the optimum, and its norm is below \<open>1e-6\<close> when
  \<open>d < 1e-12\<close>; the code asks the solver for no accuracy and checks none.
\<close>

theorem EstimateWeights_noiseless_optimum:
  assumes "\<forall>w \<in> set W. length w = length X_c \<and> sum_list w = 1 \<and> (\<forall>x \<in> set w. 0 \<le> x \<and> x \<le> 1)"
    and "X_t = map (matvec (transpose_m X_c)) W"
    and "EstimateWeights solve X_c (Arr2 X_t) = Inr W_hat"
  shows "length W_hat = length W \<and>
         (\<forall>i<length W. \<exists>p.
            p = \<lparr>nvar = length X_c, coeff = transpose_m X_c, target = X_t ! i,
                 constraints = [LowerBound 0, UpperBound 1, SumEquals 1]\<rparr> \<and>
            feasible p (W ! i) \<and> objective p (W ! i) = 0 \<and>
            (\<exists>st v. solve p = Returned st (Some v) \<and>
               (W_hat ! i = v \<or> (length v = 1 \<and> W_hat ! i = replicate (length X_c) (v ! 0)))) \<and>
            sum_squares (map2 (-) (matvec (transpose_m X_c) (W_hat ! i)) (X_t ! i))
              = objective p (W_hat ! i) \<and>
            (\<forall>d. (\<forall>u. feasible p u \<longrightarrow> objective p (W_hat ! i) \<le> objective p u + d) \<longrightarrow>
               sum_squares (map2 (-) (matvec (transpose_m X_c) (W_hat ! i)) (X_t ! i)) \<le> d \<and>
               (d < 1 / 10 ^ 12 \<longrightarrow>
                sqrt (sum_squares (map2 (-) (matvec (transpose_m X_c) (W_hat ! i)) (X_t ! i)))
                  < 1 / 10 ^ 6)))"
proof (intro conjI allI impI)
  show len: "length W_hat = length W"
    using EstimateWeights_rows [OF assms(3)] assms(2) by (simp add: n_treated_def)
  fix i assume i: "i < length W"
  let ?A = "transpose_m X_c"
  let ?p = "\<lparr>nvar = length X_c, coeff = ?A, target = X_t ! i,
             constraints = [LowerBound 0, UpperBound 1, SumEquals 1]\<rparr>"
  let ?r = "sum_squares (map2 (-) (matvec ?A (W_hat ! i)) (X_t ! i))"
  have xi: "X_t ! i = matvec ?A (W ! i)" using i assms(2) by simp
  then have lx: "length (X_t ! i) = length ?A" by (simp add: matvec_def)
  have res: "residual ?A (Vector (X_t ! i)) = Inr (?A, X_t ! i)"
    using lx by (simp add: residual_def)
  have wi: "W ! i \<in> set W" using i by simp
  with assms(1) have feas: "feasible ?p (W ! i)"
    by (auto simp: feasible_def list_all_iff)
  have zero: "objective ?p (W ! i) = 0"
    by (simp add: objective_def xi sum_squares_self)
  have ix: "i < length X_t" using i assms(2) by simp
  from EstimateWeights_batch_rows [OF assms(3)] ix obtain A b st v where
    "residual ?A (Vector (X_t ! i)) = Inr (A, b)" and
    "solve \<lparr>nvar = length X_c, coeff = A, target = b,
            constraints = [LowerBound 0, UpperBound 1, SumEquals 1]\<rparr> = Returned st (Some v)" and
    w: "W_hat ! i = v \<or> (length v = 1 \<and> W_hat ! i = replicate (length X_c) (v ! 0))"
    by blast
  with res have sv: "solve ?p = Returned st (Some v)" by simp
  have err: "?r = objective ?p (W_hat ! i)" by (simp add: objective_def)
  have tol: "\<forall>d. (\<forall>u. feasible ?p u \<longrightarrow> objective ?p (W_hat ! i) \<le> objective ?p u + d) \<longrightarrow>
               ?r \<le> d \<and> (d < 1 / 10 ^ 12 \<longrightarrow> sqrt ?r < 1 / 10 ^ 6)"
  proof (intro allI impI conjI)
    fix d
    assume o: "\<forall>u. feasible ?p u \<longrightarrow> objective ?p (W_hat ! i) \<le> objective ?p u + d"
    with feas zero show small: "?r \<le> d" unfolding err by fastforce
    assume d: "d < 1 / 10 ^ 12"
    have "sqrt ?r \<le> sqrt d" using small by simp
    also have "sqrt d < sqrt (1 / 10 ^ 12)" using d by simp
    also have "sqrt (1 / 10 ^ 12 :: real) = 1 / 10 ^ 6"
      by (rule real_sqrt_unique) (simp_all add: power2_eq_square)
    finally show "sqrt ?r < 1 / 10 ^ 6" .
  qed
  from feas zero sv w err tol
  show "\<exists>p.
            p = \<lparr>nvar = length X_c, coeff = transpose_m X_c, target = X_t ! i,
                 constraints = [LowerBound 0, UpperBound 1, SumEquals 1]\<rparr> \<and>
            feasible p (W ! i) \<and> objective p (W ! i) = 0 \<and>
            (\<exists>st v. solve p = Returned st (Some v) \<and>
               (W_hat ! i = v \<or> (length v = 1 \<and> W_hat ! i = replicate (length X_c) (v ! 0)))) \<and>
            sum_squares (map2 (-) (matvec (transpose_m X_c) (W_hat ! i)) (X_t ! i))
              = objective p (W_hat ! i) \<and>
            (\<forall>d. (\<forall>u. feasible p u \<longrightarrow> objective p (W_hat ! i) \<le> objective p u + d) \<longrightarrow>
               sum_squares (map2 (-) (matvec (transpose_m X_c) (W_hat ! i)) (X_t ! i)) \<le> d \<and>
               (d < 1 / 10 ^ 12 \<longrightarrow>
                sqrt (sum_squares (map2 (-) (matvec (transpose_m X_c) (W_hat ! i)) (X_t ! i)))
                  < 1 / 10 ^ 6))"
    by blast
qed

theorem EstimateWeights_noiseless_optimum_witness:
  "[[1, 1]] = map (matvec (transpose_m [[0, 0], [2, 2], [1, 1]])) [[1 / 2, 1 / 2, 0]] \<and>
   EstimateWeights (certify (\<lambda>p. [0, 0, 1])) [[0, 0], [2, 2], [1, 1]] (Arr2 [[1, 1]])
     = Inr [[0, 0, 1]] \<and>
   sum_squares (map2 (-) (matvec (transpose_m [[0, 0], [2, 2], [1, 1]]) [0, 0, 1]) [1, 1]) = 0 \<and>
   length [[0, 0, 1 :: real]] = length [[1 / 2, 1 / 2, 0 :: real]]"
proof -
  have h1: "\<forall>w \<in> set [[1 / 2, 1 / 2, 0 :: real]].
              length w = length [[0, 0], [2, 2], [1, 1 :: real]] \<and> sum_list w = 1 \<and>
              (\<forall>x \<in> set w. 0 \<le> x \<and> x \<le> 1)"
    by simp
  have h2: "[[1, 1]] = map (matvec (transpose_m [[0, 0], [2, 2], [1, 1]])) [[1 / 2, 1 / 2, 0]]"
    by code_simp
  have h3: "EstimateWeights (certify (\<lambda>p. [0, 0, 1])) [[0, 0], [2, 2], [1, 1]] (Arr2 [[1, 1]])
     = Inr [[0, 0, 1]]"
    by code_simp
  have h4: "sum_squares (map2 (-) (matvec (transpose_m [[0, 0], [2, 2], [1, 1]]) [0, 0, 1]) [1, 1]) = 0"
    by code_simp
  show ?thesis
    using h2 h3 h4 EstimateWeights_noiseless_optimum [OF h1 h2 h3] by simp
qed

text \<open>
  Claim C5 as stated fails: on noiseless data the call returns the row of a solver that
  stopped early, with squared reconstruction error a half.
\<close>

theorem EstimateWeights_noiseless_misfit_counterexample:
  "[[1, 1]] = map (matvec (transpose_m [[0, 0], [2, 2]])) [[1 / 2, 1 / 2]] \<and>
   EstimateWeights stalled [[0, 0], [2, 2]] (Arr2 [[1, 1]]) = Inr [[1 / 4, 1 / 4]] \<and>
   sum_squares (map2 (-) (matvec (transpose_m [[0, 0], [2, 2]]) [1 / 4, 1 / 4]) [1, 1]) = 1 / 2 \<and>
   \<not> sqrt (1 / 2) < 1 / 10 ^ 6"
proof -
  have a: "[[1, 1]] = map (matvec (transpose_m [[0, 0], [2, 2]])) [[1 / 2, 1 / 2]]"
    by code_simp
  have b: "EstimateWeights stalled [[0, 0], [2, 2]] (Arr2 [[1, 1]]) = Inr [[1 / 4, 1 / 4]]"
    by code_simp
  have c: "sum_squares (map2 (-) (matvec (transpose_m [[0, 0], [2, 2]]) [1 / 4, 1 / 4]) [1, 1]) = 1 / 2"
    by code_simp
  have "sqrt (1 / 4) \<le> sqrt (1 / 2)" by (simp del: real_sqrt_four)
  moreover have "sqrt (1 / 4 :: real) = 1 / 2"
    by (rule real_sqrt_unique) (simp_all add: power2_eq_square)
  ultimately have d: "\<not> sqrt (1 / 2) < 1 / 10 ^ 6" by simp
  from a b c d show ?thesis by blast
qed

subsection \<open>Failures of the solver\<close>

lemma solve_unit_relabel: "solve_unit (relabel f solve) X_c X_t i = solve_unit solve X_c X_t i"
  by (simp add: solve_unit_def relabel_def split: sum.splits outcome.splits option.splits prod.splits)

lemma solve_units_relabel:
  "solve_units (relabel f solve) X_c X_t todo W = solve_units solve X_c X_t todo W"
  by (induction todo arbitrary: W) (simp_all add: solve_unit_relabel split: sum.splits)

lemma EstimateWeights_relabel:
  "EstimateWeights (relabel f solve) X_c X_t = EstimateWeights solve X_c X_t"
  by (simp add: EstimateWeights_def solve_units_relabel)

lemma EstimateWeights_unit_fails:
  assumes "i < n_treated X_t" and "solve_unit solve X_c X_t i = Inl e"
  shows "\<exists>e'. EstimateWeights solve X_c X_t = Inl e'"
proof (cases "EstimateWeights solve X_c X_t")
  case (Inl e')
  then show ?thesis by blast
next
  case (Inr W)
  from EstimateWeights_rows [OF Inr] assms(1)
  obtain v where "solve_unit solve X_c X_t i = Inr v" by auto
  with assms(2) show ?thesis by simp
qed

text \<open>
  Claim C4, as the code has it. \<open>EstimateWeights\<close> has no error of its own for a solve that
  did not converge. (1) Every row of a returned matrix is a value the solver left for a
  problem of that call, never a row of the initial zeros. (2) When the solve of some unit
  raises, leaves no value, or its expression cannot be built, the whole call raises and no
  matrix is returned. (3) The status the solver reports is never read: replacing every
  status by another leaves the result of the call unchanged.
\<close>

theorem EstimateWeights_failure_handling:
  "(EstimateWeights solve X_c X_t = Inr W_hat \<longrightarrow>
      length W_hat = n_treated X_t \<and>
      (\<forall>i<n_treated X_t. \<exists>p st v.
          solve p = Returned st (Some v) \<and> nvar p = length X_c \<and>
          constraints p = [LowerBound 0, UpperBound 1, SumEquals 1] \<and>
          (W_hat ! i = v \<or> (length v = 1 \<and> W_hat ! i = replicate (length X_c) (v ! 0))))) \<and>
   ((\<exists>i<n_treated X_t. \<exists>e. solve_unit solve X_c X_t i = Inl e) \<longrightarrow>
      (\<exists>e. EstimateWeights solve X_c X_t = Inl e)) \<and>
   EstimateWeights (relabel f solve) X_c X_t = EstimateWeights solve X_c X_t"
proof (intro conjI impI allI)
  assume r: "EstimateWeights solve X_c X_t = Inr W_hat"
  show len: "length W_hat = n_treated X_t"
    using EstimateWeights_rows [OF r] by simp
  fix i assume i: "i < n_treated X_t"
  with EstimateWeights_rows [OF r] len obtain v where
    v: "solve_unit solve X_c X_t i = Inr v" and
    c: "(length v = length X_c \<and> W_hat ! i = v) \<or>
        (length v = 1 \<and> W_hat ! i = replicate (length X_c) (v ! 0))"
    by auto
  from solve_unit_Inr [OF v] obtain A b st where
    "solve \<lparr>nvar = length X_c, coeff = A, target = b,
            constraints = [LowerBound 0, UpperBound 1, SumEquals 1]\<rparr> = Returned st (Some v)"
    by blast
  with c show "\<exists>p st v.
          solve p = Returned st (Some v) \<and> nvar p = length X_c \<and>
          constraints p = [LowerBound 0, UpperBound 1, SumEquals 1] \<and>
          (W_hat ! i = v \<or> (length v = 1 \<and> W_hat ! i = replicate (length X_c) (v ! 0)))"
    by (metis problem.select_convs(1,4))
next
  assume "\<exists>i<n_treated X_t. \<exists>e. solve_unit solve X_c X_t i = Inl e"
  then show "\<exists>e. EstimateWeights solve X_c X_t = Inl e"
    using EstimateWeights_unit_fails by blast
next
  show "EstimateWeights (relabel f solve) X_c X_t = EstimateWeights solve X_c X_t"
    by (rule EstimateWeights_relabel)
qed

theorem EstimateWeights_failure_handling_witness:
  "EstimateWeights stalled [[0, 0], [1, 1]] (Arr2 [[1, 0]]) = Inr [[1 / 4, 1 / 4]] \<and>
   solve_unit (\<lambda>p. if target p = [1, 0] then Raised else first_vertex p)
      [[0, 0], [1, 1]] (Arr2 [[3, 4], [1, 0]]) 1 = Inl SolverError \<and>
   EstimateWeights (\<lambda>p. if target p = [1, 0] then Raised else first_vertex p)
      [[0, 0], [1, 1]] (Arr2 [[3, 4], [1, 0]]) = Inl SolverError \<and>
   EstimateWeights (relabel (\<lambda>st. Optimal) stalled) [[0, 0], [1, 1]] (Arr2 [[1, 0]])
     = Inr [[1 / 4, 1 / 4]]"
proof -
  have h1: "EstimateWeights stalled [[0, 0], [1, 1]] (Arr2 [[1, 0]]) = Inr [[1 / 4, 1 / 4]]"
    by code_simp
  have h2: "solve_unit (\<lambda>p. if target p = [1, 0] then Raised else first_vertex p)
      [[0, 0], [1, 1]] (Arr2 [[3, 4], [1, 0]]) 1 = Inl SolverError"
    by code_simp
  have h3: "EstimateWeights (\<lambda>p. if target p = [1, 0] then Raised else first_vertex p)
      [[0, 0], [1, 1]] (Arr2 [[3, 4], [1, 0]]) = Inl SolverError"
    by code_simp
  show ?thesis
    using h1 h2 h3
      EstimateWeights_failure_handling [of stalled "[[0, 0], [1, 1]]" "Arr2 [[1, 0]]"
        "[[1 / 4, 1 / 4]]" "\<lambda>st. Optimal"]
    by simp
qed

text \<open>
  Claim C4 as stated fails: a solver that stops early and reports an inaccurate solution
  leaves a value, and the call returns it as a row (here a row that sums to a half) with no
  error.
\<close>

theorem EstimateWeights_inaccurate_counterexample:
  "stalled \<lparr>nvar = 2, coeff = [[0, 1], [0, 1]], target = [1, 0],
            constraints = [LowerBound 0, UpperBound 1, SumEquals 1]\<rparr>
     = Returned OptimalInaccurate (Some [1 / 4, 1 / 4]) \<and>
   EstimateWeights stalled [[0, 0], [1, 1]] (Arr2 [[1, 0]]) = Inr [[1 / 4, 1 / 4]]"
  by code_simp

subsection \<open>A one-dimensional treated unit\<close>

text \<open>The call on a one-dimensional \<open>x\<close> is the call on the one-row matrix that repeats
  \<open>x[0]\<close> in every column: the other entries of \<open>x\<close> are never read.\<close>

lemma length_transpose_m: "length (transpose_m X) = ncols X"
  by (simp add: transpose_m_def)

lemma solve_unit_vector:
  assumes "x \<noteq> []"
  shows "solve_unit solve X_c (Arr1 x) 0
         = solve_unit solve X_c (Arr2 [replicate (ncols X_c) (x ! 0)]) 0"
  using assms by (simp add: solve_unit_def index_row_def residual_def length_transpose_m)

lemma EstimateWeights_vector:
  assumes "x \<noteq> []"
  shows "EstimateWeights solve X_c (Arr1 x)
         = EstimateWeights solve X_c (Arr2 [replicate (ncols X_c) (x ! 0)])"
  using solve_unit_vector [OF assms, of solve X_c]
  by (simp add: EstimateWeights_def n_treated_def split: sum.splits)

lemma two_simplex:
  assumes "length (v :: vec) = 2" and "sum_list v = 1"
  obtains a where "v = [a, 1 - a]"
proof -
  from assms(1) obtain a b where v: "v = [a, b]"
    by (auto simp: length_Suc_conv numeral_2_eq_2)
  with assms(2) have "b = 1 - a" by simp
  with v that show thesis by blast
qed

lemma objective_unit: "objective (unit_problem [c, d]) [a, b] = (a - c) * (a - c) + (b - d) * (b - d)"
  by (simp add: objective_def unit_problem_def matvec_def dot_def sum_squares_def)

lemma feasible_unit_problem:
  "feasible (unit_problem t) [a, 1 - a] \<longleftrightarrow> 0 \<le> a \<and> a \<le> 1"
  by (auto simp: feasible_def unit_problem_def)

lemma half_is_best:
  assumes "(a - 1) * (a - 1) + (1 - a - 1) * (1 - a - 1) \<le> (1 / 2 - 1) * (1 / 2 - 1) + (1 / 2 - 1) * (1 / 2 - 1 :: real)"
  shows "a = 1 / 2"
proof -
  have "(a - 1) * (a - 1) + (1 - a - 1) * (1 - a - 1) = 2 * ((a - 1 / 2) * (a - 1 / 2)) + 1 / 2"
    by (simp add: algebra_simps)
  with assms have "(a - 1 / 2) * (a - 1 / 2) \<le> 0" by simp
  then have "a - 1 / 2 = 0"
    by (metis mult_eq_0_iff order.antisym zero_le_square)
  then show ?thesis by simp
qed

lemma one_is_best:
  assumes "(a - 1) * (a - 1) + (1 - a - 0) * (1 - a - 0) \<le> (0::real)"
  shows "a = 1"
proof -
  have "(a - 1) * (a - 1) + (1 - a - 0) * (1 - a - 0) = 2 * ((a - 1) * (a - 1))"
    by (simp add: algebra_simps)
  with assms have "(a - 1) * (a - 1) \<le> 0" by simp
  then have "a - 1 = 0"
    by (metis mult_eq_0_iff order.antisym zero_le_square)
  then show ?thesis by simp
qed

lemma unit_minimiser:
  assumes f: "solver_feasible 0 solve" and o: "solver_optimal 0 solve"
    and s: "solve (unit_problem b) = Returned st (Some v)"
  shows "b = [1, 1] \<longrightarrow> v = [1 / 2, 1 / 2]" and "b = [1, 0] \<longrightarrow> v = [1, 0]"
proof -
  from f s have "length v = 2" and "\<bar>sum_list v - 1\<bar> \<le> 0"
    unfolding solver_feasible_def by (fastforce simp: unit_problem_def)+
  then obtain a where v: "v = [a, 1 - a]"
    by (auto elim: two_simplex)
  from o s have best: "\<And>u. feasible (unit_problem b) u \<Longrightarrow>
      objective (unit_problem b) v \<le> objective (unit_problem b) u"
    unfolding solver_optimal_def by fastforce
  show "b = [1, 1] \<longrightarrow> v = [1 / 2, 1 / 2]"
  proof
    assume b: "b = [1, 1]"
    have "feasible (unit_problem b) [1 / 2, 1 - 1 / 2]"
      by (subst feasible_unit_problem) simp
    from best [OF this] have "a = 1 / 2"
      unfolding b v objective_unit by (intro half_is_best) simp
    with v show "v = [1 / 2, 1 / 2]" by simp
  qed
  show "b = [1, 0] \<longrightarrow> v = [1, 0]"
  proof
    assume b: "b = [1, 0]"
    have "feasible (unit_problem b) [1, 1 - 1]"
      by (subst feasible_unit_problem) simp
    from best [OF this] have "a = 1"
      unfolding b v objective_unit by (intro one_is_best) simp
    with v show "v = [1, 0]" by simp
  qed
qed

lemma solve_unit_vector_call:
  "solve_unit solve [[1, 0], [0, 1]] (Arr1 [1, 0]) 0 =
     (case solve (unit_problem [1, 1]) of Raised \<Rightarrow> Inl SolverError
      | Returned st None \<Rightarrow> Inl AttributeError | Returned st (Some v) \<Rightarrow> Inr v)"
  by (simp add: solve_unit_def index_row_def residual_def transpose_m_def ncols_def
      unit_problem_def upt_rec numeral_2_eq_2)

lemma solve_unit_batch_call:
  "solve_unit solve [[1, 0], [0, 1]] (Arr2 [[1, 0]]) 0 =
     (case solve (unit_problem [1, 0]) of Raised \<Rightarrow> Inl SolverError
      | Returned st None \<Rightarrow> Inl AttributeError | Returned st (Some v) \<Rightarrow> Inr v)"
  by (simp add: solve_unit_def index_row_def residual_def transpose_m_def ncols_def
      unit_problem_def upt_rec numeral_2_eq_2)

text \<open>
  Claim C3 fails on the code. For a one-dimensional \<open>X_t\<close> the subscript \<open>X_t[i, ]\<close> is the
  scalar \<open>X_t[0]\<close>, which the library promotes to a constant vector, so the call fits the
  target \<open>(x[0], ..., x[0])\<close> and not \<open>x\<close>. With the controls \<open>(1, 0)\<close> and \<open>(0, 1)\<close> and
  \<open>x = (1, 0)\<close>, every exact solver gives the weights \<open>(1/2, 1/2)\<close> for the vector \<open>x\<close>
  and \<open>(1, 0)\<close> for the one-row matrix holding \<open>x\<close>.
\<close>

theorem EstimateWeights_vector_call_differs:
  assumes "solver_feasible 0 solve" and "solver_optimal 0 solve"
    and "EstimateWeights solve [[1, 0], [0, 1]] (Arr1 [1, 0]) = Inr W1"
    and "EstimateWeights solve [[1, 0], [0, 1]] (Arr2 [[1, 0]]) = Inr W2"
  shows "W1 = [[1 / 2, 1 / 2]] \<and> W2 = [[1, 0]]"
proof
  have l1: "length W1 = 1" using EstimateWeights_rows [OF assms(3)] by (simp add: n_treated_def)
  from feasible_rows [OF assms(1) assms(3), of 0] l1
  have "solve_unit solve [[1, 0], [0, 1]] (Arr1 [1, 0]) 0 = Inr (W1 ! 0)" by simp
  then obtain st where "solve (unit_problem [1, 1]) = Returned st (Some (W1 ! 0))"
    unfolding solve_unit_vector_call by (auto split: outcome.splits option.splits)
  from unit_minimiser(1) [OF assms(1,2) this] have "W1 ! 0 = [1 / 2, 1 / 2]" by simp
  with l1 show "W1 = [[1 / 2, 1 / 2]]"
    by (cases W1) auto
next
  have l2: "length W2 = 1" using EstimateWeights_rows [OF assms(4)] by (simp add: n_treated_def)
  from feasible_rows [OF assms(1) assms(4), of 0] l2
  have "solve_unit solve [[1, 0], [0, 1]] (Arr2 [[1, 0]]) 0 = Inr (W2 ! 0)" by simp
  then obtain st where "solve (unit_problem [1, 0]) = Returned st (Some (W2 ! 0))"
    unfolding solve_unit_batch_call by (auto split: outcome.splits option.splits)
  from unit_minimiser(2) [OF assms(1,2) this] have "W2 ! 0 = [1, 0]" by simp
  with l2 show "W2 = [[1, 0]]"
    by (cases W2) auto
qed

lemma unit_table_cases:
  assumes "table_solver unit_table p = Returned st (Some v)"
  shows "(p = unit_problem [1, 1] \<and> v = [1 / 2, 1 / 2]) \<or> (p = unit_problem [1, 0] \<and> v = [1, 0])"
  using assms
  by (auto simp: table_solver_def unit_table_def split: option.splits if_splits)

lemma unit_table_feasible: "solver_feasible 0 (table_solver unit_table)"
  unfolding solver_feasible_def
  by (auto dest!: unit_table_cases simp: unit_problem_def)

lemma unit_table_optimal: "solver_optimal 0 (table_solver unit_table)"
  unfolding solver_optimal_def
proof (intro allI impI conjI)
  fix p st v
  assume s: "table_solver unit_table p = Returned st (Some v)"
  then show "length v = nvar p"
    by (auto dest!: unit_table_cases simp: unit_problem_def)
  fix u assume u: "feasible p u"
  from unit_table_cases [OF s] u have "length u = 2" and "sum_list u = 1"
    by (auto simp: feasible_def unit_problem_def)
  then obtain a where ua: "u = [a, 1 - a]" by (auto elim: two_simplex)
  from unit_table_cases [OF s]
  show "objective p v \<le> objective p u + 0"
  proof
    assume "p = unit_problem [1, 1] \<and> v = [1 / 2, 1 / 2]"
    moreover have "(1 / 2 - 1) * (1 / 2 - 1) + (1 / 2 - 1) * (1 / 2 - 1)
        \<le> (a - 1) * (a - 1) + (1 - a - 1) * (1 - a - 1)"
    proof -
      have "(a - 1) * (a - 1) + (1 - a - 1) * (1 - a - 1) = 2 * ((a - 1 / 2) * (a - 1 / 2)) + 1 / 2"
        by (simp add: algebra_simps)
      then show ?thesis by simp
    qed
    ultimately show ?thesis by (simp add: ua objective_unit)
  next
    assume "p = unit_problem [1, 0] \<and> v = [1, 0]"
    then show ?thesis by (simp add: ua objective_unit)
  qed
qed

theorem EstimateWeights_vector_call_differs_witness:
  "solver_feasible 0 (table_solver unit_table) \<and> solver_optimal 0 (table_solver unit_table) \<and>
   EstimateWeights (table_solver unit_table) [[1, 0], [0, 1]] (Arr1 [1, 0]) = Inr [[1 / 2, 1 / 2]] \<and>
   EstimateWeights (table_solver unit_table) [[1, 0], [0, 1]] (Arr2 [[1, 0]]) = Inr [[1, 0]]"
proof -
  have h3: "EstimateWeights (table_solver unit_table) [[1, 0], [0, 1]] (Arr1 [1, 0])
              = Inr [[1 / 2, 1 / 2]]"
    by code_simp
  have h4: "EstimateWeights (table_solver unit_table) [[1, 0], [0, 1]] (Arr2 [[1, 0]])
              = Inr [[1, 0]]"
    by code_simp
  show ?thesis
    using unit_table_feasible unit_table_optimal h3 h4
      EstimateWeights_vector_call_differs [OF unit_table_feasible unit_table_optimal h3 h4]
    by simp
qed

section \<open>Properties of \<open>SimulateData\<close>\<close>

subsection \<open>The generators' ranges and shapes\<close>

lemma normal_shape:
  assumes "generators_ok g" and "multivariate_normal g mean cov sz s = Inr (X, s')"
  shows "length X = sz \<and> list_all (\<lambda>r. length r = length mean) X"
  using assms(1) [unfolded generators_ok_def, THEN conjunct1, rule_format, OF assms(2)] .

lemma randint_range:
  assumes "generators_ok g" and "randint g low high sz s = Inr (ns, s')"
  shows "length ns = sz \<and> list_all (\<lambda>k. low \<le> k \<and> k < high) ns"
  using assms(1) [unfolded generators_ok_def, THEN conjunct2, THEN conjunct1, rule_format,
      OF assms(2)] .

lemma uniform_range:
  assumes "generators_ok g" and "uniform g sz s = (vs, s')"
  shows "length vs = sz \<and> list_all (\<lambda>x. 0 \<le> x \<and> x < 1) vs"
  using assms(1) [unfolded generators_ok_def, THEN conjunct2, THEN conjunct2, THEN conjunct1,
      rule_format, OF assms(2)] .

lemma sample_distinct:
  assumes "generators_ok g" and "sample g N k t = Inr (idx, t')"
  shows "length idx = k \<and> distinct idx \<and> list_all (\<lambda>j. j < N) idx"
  using assms(1) [unfolded generators_ok_def, THEN conjunct2, THEN conjunct2, THEN conjunct2,
      rule_format, OF assms(2)] .

lemma replay_ok: "generators_ok replay"
  unfolding generators_ok_def replay_def
  by (auto simp: replay_normal_def replay_randint_def replay_uniform_def replay_sample_def
      list_all_iff split: list.splits if_splits)

subsection \<open>Rows of the weight matrix\<close>

lemma put_Cons: "put row (j # idx) (v # vals) = put (row[j := v]) idx vals"
  by (simp add: put_def)

lemma put_Nil: "put row [] vals = row"
  by (simp add: put_def)

lemma length_put: "length (put row idx vals) = length row"
  unfolding put_def by (rule fold_invariant [where Q = "\<lambda>_. True"]) auto

lemma put_other:
  "j \<notin> set idx \<Longrightarrow> put row idx vals ! j = row ! j"
proof (induction idx arbitrary: row vals)
  case Nil
  then show ?case by (simp add: put_Nil)
next
  case (Cons a idx)
  show ?case
  proof (cases vals)
    case Nil
    then show ?thesis by (simp add: put_def)
  next
    case (Cons v vs)
    with Cons.prems Cons.IH [of "row[a := v]" vs] show ?thesis
      by (simp add: put_Cons)
  qed
qed

lemma put_at:
  assumes "distinct idx" and "length vals = length idx" and "m < length idx"
    and "idx ! m < length row"
  shows "put row idx vals ! (idx ! m) = vals ! m"
  using assms
proof (induction idx arbitrary: row vals m)
  case Nil
  then show ?case by simp
next
  case (Cons a idx)
  from Cons.prems(2) obtain v vs where vals: "vals = v # vs" and l: "length vs = length idx"
    by (cases vals) auto
  show ?case
  proof (cases m)
    case 0
    have "a \<notin> set idx" using Cons.prems(1) by simp
    then have "put (row[a := v]) idx vs ! a = (row[a := v]) ! a" by (rule put_other)
    with 0 Cons.prems(4) show ?thesis by (simp add: vals put_Cons)
  next
    case (Suc k)
    with Cons.prems have "put (row[a := v]) idx vs ! (idx ! k) = vs ! k"
      by (intro Cons.IH) (auto simp: l)
    with Suc show ?thesis by (simp add: vals put_Cons)
  qed
qed

lemma scatter_Inr:
  "scatter W i idx vals = Inr W' \<Longrightarrow>
     i < length W \<and> length W' = length W \<and> (\<forall>j. j \<noteq> i \<longrightarrow> W' ! j = W ! j) \<and>
     list_all (\<lambda>j. j < length (W ! i)) idx \<and>
     ((length vals = length idx \<and> W' ! i = put (W ! i) idx vals) \<or>
      (length vals = 1 \<and> W' ! i = put (W ! i) idx (replicate (length idx) (vals ! 0))))"
  by (auto simp: scatter_def split: if_splits)

lemma fill_rows_rows:
  assumes "generators_ok g"
  shows "fill_rows g N_c n todo W st = Inr (W', st') \<Longrightarrow> distinct todo \<Longrightarrow>
     length W' = length W \<and>
     (\<forall>i<length W.
        (i \<in> set todo \<longrightarrow> i < length n \<and>
           (\<exists>idx vals t t' s s'. sample g N_c (n ! i) t = Inr (idx, t') \<and>
                uniform g (n ! i) s = (vals, s') \<and>
                W' ! i = put (W ! i) idx (standardize vals))) \<and>
        (i \<notin> set todo \<longrightarrow> W' ! i = W ! i))"
proof (induction todo arbitrary: W st)
  case Nil
  then show ?case by simp
next
  case (Cons i rest)
  from Cons.prems(1) obtain idx t1 vals s1 W1 where
    i: "i < length n" and
    smp: "sample g N_c (n ! i) (snd st) = Inr (idx, t1)" and
    uni: "uniform g (n ! i) (fst st) = (vals, s1)" and
    sc: "scatter W i idx (standardize vals) = Inr W1" and
    rec: "fill_rows g N_c n rest W1 (s1, t1) = Inr (W', st')"
    by (auto split: if_splits sum.splits prod.splits)
  have "length idx = n ! i" "length vals = n ! i"
    using sample_distinct [OF assms smp] uniform_range [OF assms uni] by simp_all
  then have lv: "length (standardize vals) = length idx" by (simp add: standardize_def)
  note s = scatter_Inr [OF sc]
  have W1i: "W1 ! i = put (W ! i) idx (standardize vals)"
  proof (rule disjE [OF s [THEN conjunct2, THEN conjunct2, THEN conjunct2, THEN conjunct2]])
    assume "length (standardize vals) = length idx \<and> W1 ! i = put (W ! i) idx (standardize vals)"
    then show ?thesis by simp
  next
    assume a: "length (standardize vals) = 1 \<and>
        W1 ! i = put (W ! i) idx (replicate (length idx) (standardize vals ! 0))"
    then have "length idx = 1" using lv by simp
    then have "replicate (length idx) (standardize vals ! 0) = standardize vals"
      using a by (cases "standardize vals") auto
    with a show ?thesis by simp
  qed
  from Cons.prems(2) have d: "distinct rest" and ni: "i \<notin> set rest" by simp_all
  note ih = Cons.IH [OF rec d]
  show ?case
  proof (intro conjI allI impI)
    show "length W' = length W" using ih s by simp
  next
    fix j assume j: "j < length W" and m: "j \<in> set (i # rest)"
    show "j < length n"
    proof (cases "j = i")
      case True then show ?thesis using i by simp
    next
      case False then show ?thesis using ih j s m by simp
    qed
    show "\<exists>idx vals t t' s s'. sample g N_c (n ! j) t = Inr (idx, t') \<and>
                uniform g (n ! j) s = (vals, s') \<and>
                W' ! j = put (W ! j) idx (standardize vals)"
    proof (cases "j = i")
      case True
      then have "W' ! j = W1 ! i" using ih j s ni by simp
      with True W1i smp uni show ?thesis by metis
    next
      case False
      then have jr: "j \<in> set rest" using m by simp
      have jl: "j < length W1" using j s by simp
      have e: "W1 ! j = W ! j" using s False by simp
      from ih jl jr
      have "\<exists>idx vals t t' s s'. sample g N_c (n ! j) t = Inr (idx, t') \<and>
                uniform g (n ! j) s = (vals, s') \<and>
                W' ! j = put (W1 ! j) idx (standardize vals)"
        by blast
      then show ?thesis unfolding e .
    qed
  next
    fix j assume j: "j < length W" and m: "j \<notin> set (i # rest)"
    then show "W' ! j = W ! j" using ih s by simp
  qed
qed

lemma SimulateData_Inr:
  assumes "SimulateData g N_c N_t mu Sigma_c l u Gamma_e st = Inr ((X_c, X_t, W), st')"
  obtains s1 n s2 s3 t1 P noise s4 where
    "multivariate_normal g mu Sigma_c N_c (fst st) = Inr (X_c, s1)"
    "randint g l u N_t s1 = Inr (n, s2)"
    "fill_rows g N_c n [0..<N_t] (replicate N_t (replicate N_c (Some 0))) (s2, snd st)
       = Inr (W, s3, t1)"
    "np_dot N_c W X_c = Inr P"
    "multivariate_normal g (replicate (length mu) 0) Gamma_e N_t s3 = Inr (noise, s4)"
    "np_add P noise = Inr X_t"
    "st' = (s4, t1)"
  using assms unfolding SimulateData_def
  by (auto split: sum.splits prod.splits)

lemma SimulateData_rows:
  assumes ok: "generators_ok g"
    and r: "SimulateData g N_c N_t mu Sigma_c l u Gamma_e st = Inr ((X_c, X_t, W), st')"
  shows "length W = N_t \<and>
         (\<forall>i<N_t. \<exists>k idx vals t t' s s'. l \<le> k \<and> k < u \<and>
            sample g N_c k t = Inr (idx, t') \<and> uniform g k s = (vals, s') \<and>
            W ! i = put (replicate N_c (Some 0)) idx (standardize vals))"
proof -
  from r obtain s1 n s2 s3 t1 where
    ri: "randint g l u N_t s1 = Inr (n, s2)" and
    fr: "fill_rows g N_c n [0..<N_t] (replicate N_t (replicate N_c (Some 0))) (s2, snd st)
       = Inr (W, s3, t1)"
    by (rule SimulateData_Inr)
  have n: "length n = N_t" "list_all (\<lambda>k. l \<le> k \<and> k < u) n"
    using randint_range [OF ok ri] by simp_all
  note f = fill_rows_rows [OF ok fr]
  have len: "length W = N_t" using f by simp
  moreover have "\<exists>k idx vals t t' s s'. l \<le> k \<and> k < u \<and>
            sample g N_c k t = Inr (idx, t') \<and> uniform g k s = (vals, s') \<and>
            W ! i = put (replicate N_c (Some 0)) idx (standardize vals)" if i: "i < N_t" for i
  proof -
    from f i obtain idx vals t t' s s' where
      d: "sample g N_c (n ! i) t = Inr (idx, t')" "uniform g (n ! i) s = (vals, s')"
         "W ! i = put (replicate N_t (replicate N_c (Some 0)) ! i) idx (standardize vals)"
      by fastforce
    from n i have "l \<le> n ! i \<and> n ! i < u" by (simp add: list_all_length)
    moreover from d i have "W ! i = put (replicate N_c (Some 0)) idx (standardize vals)"
      by simp
    ultimately show ?thesis using d(1,2) by blast
  qed
  ultimately show ?thesis by blast
qed

lemma standardize_zero_sum:
  "sum_list vals = 0 \<Longrightarrow> m < length vals \<Longrightarrow> standardize vals ! m = None"
  by (simp add: standardize_def fdiv_def)

lemma standardize_positive_sum:
  "sum_list vals \<noteq> 0 \<Longrightarrow> m < length vals \<Longrightarrow>
     standardize vals ! m = Some (vals ! m / sum_list vals)"
  by (simp add: standardize_def fdiv_def)

lemma sum_list_zero_iff:
  "list_all (\<lambda>x. 0 \<le> x) (vals :: vec) \<Longrightarrow> sum_list vals = 0 \<longleftrightarrow> list_all (\<lambda>x. x = 0) vals"
proof (induction vals)
  case Nil
  then show ?case by simp
next
  case (Cons a vals)
  then have "0 \<le> a" and "0 \<le> sum_list vals"
    by (auto simp: list_all_iff intro: sum_list_nonneg)
  with Cons show ?case by (auto simp: add_nonneg_eq_0_iff)
qed

subsection \<open>The division by the sum of the draws\<close>

text \<open>
  Claim C10. Line 45 divides the draws of a row by their sum with no guard. For a call that
  returns, every row \<open>i\<close> of \<open>W\<close> is the row of zeros with the standardized draws \<open>vals\<close>
  written at the sampled columns \<open>idx\<close>. The sum of the draws is zero exactly when all of
  them are zero; then the call still returns, and every entry at a sampled column is not
  finite. When the sum is not zero, every entry of the row is finite.
\<close>

theorem SimulateData_unguarded_division:
  assumes "generators_ok g"
    and "SimulateData g N_c N_t mu Sigma_c l u Gamma_e st = Inr ((X_c, X_t, W), st')"
  shows "length W = N_t \<and>
         (\<forall>i<N_t. \<exists>k idx vals.
            (\<exists>t t' s s'. l \<le> k \<and> k < u \<and> sample g N_c k t = Inr (idx, t') \<and>
                uniform g k s = (vals, s')) \<and>
            W ! i = put (replicate N_c (Some 0)) idx (standardize vals) \<and>
            (sum_list vals = 0 \<longleftrightarrow> list_all (\<lambda>x. x = 0) vals) \<and>
            (sum_list vals = 0 \<longrightarrow> (\<forall>j \<in> set idx. W ! i ! j = None)) \<and>
            (sum_list vals \<noteq> 0 \<longrightarrow> list_all (\<lambda>w. w \<noteq> None) (W ! i)))"
proof (intro conjI allI impI)
  show "length W = N_t" using SimulateData_rows [OF assms] by simp
next
  fix i assume "i < N_t"
  with SimulateData_rows [OF assms] obtain k idx vals t t' s s' where
    k: "l \<le> k \<and> k < u" and
    smp: "sample g N_c k t = Inr (idx, t')" and
    uni: "uniform g k s = (vals, s')" and
    row: "W ! i = put (replicate N_c (Some 0)) idx (standardize vals)"
    by blast
  have idx: "length idx = k" "distinct idx" "list_all (\<lambda>j. j < N_c) idx"
    using sample_distinct [OF assms(1) smp] by simp_all
  have vals: "length vals = k" "list_all (\<lambda>x. 0 \<le> x \<and> x < 1) vals"
    using uniform_range [OF assms(1) uni] by simp_all
  have ls: "length (standardize vals) = length idx"
    using idx vals by (simp add: standardize_def)
  have at: "W ! i ! (idx ! m) = standardize vals ! m" if "m < length idx" for m
    unfolding row using idx that
    by (intro put_at [OF idx(2) ls]) (simp_all add: list_all_length)
  have nonneg: "list_all (\<lambda>x. 0 \<le> x) vals"
    using vals(2) by (simp add: list_all_iff)
  have zero: "\<forall>j \<in> set idx. W ! i ! j = None" if z: "sum_list vals = 0"
  proof
    fix j assume "j \<in> set idx"
    then obtain m where m: "m < length idx" "j = idx ! m" by (auto simp: in_set_conv_nth)
    with at [OF m(1)] standardize_zero_sum [OF z, of m] idx vals show "W ! i ! j = None"
      by simp
  qed
  have fin: "list_all (\<lambda>w. w \<noteq> None) (W ! i)" if p: "sum_list vals \<noteq> 0"
    unfolding list_all_length
  proof (intro allI impI)
    fix j assume j: "j < length (W ! i)"
    show "W ! i ! j \<noteq> None"
    proof (cases "j \<in> set idx")
      case True
      then obtain m where m: "m < length idx" "j = idx ! m" by (auto simp: in_set_conv_nth)
      with at [OF m(1)] standardize_positive_sum [OF p, of m] idx vals show ?thesis
        by simp
    next
      case False
      from j have "j < N_c" by (simp add: row length_put)
      with put_other [OF False, of "replicate N_c (Some 0)" "standardize vals"] show ?thesis
        by (simp add: row)
    qed
  qed
  show "\<exists>k idx vals.
            (\<exists>t t' s s'. l \<le> k \<and> k < u \<and> sample g N_c k t = Inr (idx, t') \<and>
                uniform g k s = (vals, s')) \<and>
            W ! i = put (replicate N_c (Some 0)) idx (standardize vals) \<and>
            (sum_list vals = 0 \<longleftrightarrow> list_all (\<lambda>x. x = 0) vals) \<and>
            (sum_list vals = 0 \<longrightarrow> (\<forall>j \<in> set idx. W ! i ! j = None)) \<and>
            (sum_list vals \<noteq> 0 \<longrightarrow> list_all (\<lambda>w. w \<noteq> None) (W ! i))"
    using k smp uni row sum_list_zero_iff [OF nonneg] zero fin by blast
qed

theorem SimulateData_unguarded_division_witness:
  "generators_ok replay \<and>
   SimulateData replay 2 1 [0] [[1]] 2 3 [[1]]
     (\<lparr>normal_draws = [[[3], [5]], [[1]]], integer_draws = [[2]], uniform_draws = [[0, 0]]\<rparr>,
      [[1, 0]])
   = Inr (([[3], [5]], [[None]], [[None, None]]),
          \<lparr>normal_draws = [], integer_draws = [], uniform_draws = []\<rparr>, []) \<and>
   length [[None, None :: fval]] = 1"
proof -
  have h: "SimulateData replay 2 1 [0] [[1]] 2 3 [[1]]
     (\<lparr>normal_draws = [[[3], [5]], [[1]]], integer_draws = [[2]], uniform_draws = [[0, 0]]\<rparr>,
      [[1, 0]])
   = Inr (([[3], [5]], [[None]], [[None, None]]),
          \<lparr>normal_draws = [], integer_draws = [], uniform_draws = []\<rparr>, [])"
    by code_simp
  show ?thesis
    using replay_ok h SimulateData_unguarded_division [OF replay_ok h] by simp
qed

text \<open>
  When no uniform draw is zero, the rows of \<open>W\<close> are as the documentation of
  \<open>SimulateData\<close> says: finite, summing to 1, with entries between 0 and 1, and with a
  number of entries that are not zero in the half-open range from \<open>l\<close> to \<open>u\<close>.
\<close>

lemma put_map: "put (map f row) idx (map f vals) = map f (put row idx vals)"
proof (induction idx arbitrary: row vals)
  case Nil
  then show ?case by (simp add: put_Nil)
next
  case (Cons a idx)
  show ?case
  proof (cases vals)
    case Nil
    then show ?thesis by (simp add: put_def)
  next
    case (Cons v vs)
    with Cons.IH [of "row[a := v]" vs] show ?thesis
      by (simp add: put_Cons map_update)
  qed
qed

lemma sum_list_update_real:
  fixes row :: vec
  shows "a < length row \<Longrightarrow> sum_list (row[a := v]) = sum_list row + v - row ! a"
proof (induction row arbitrary: a)
  case Nil
  then show ?case by simp
next
  case (Cons x row)
  then show ?case by (cases a) simp_all
qed

lemma sum_list_divide:
  fixes xs :: vec
  shows "sum_list (map (\<lambda>x. x / c) xs) = sum_list xs / c"
  by (induction xs) (simp_all add: add_divide_distrib)

lemma sum_list_put:
  fixes row :: vec
  assumes "distinct idx" and "length vals = length idx" and "list_all (\<lambda>j. j < length row) idx"
    and "list_all (\<lambda>j. row ! j = 0) idx"
  shows "sum_list (put row idx vals) = sum_list row + sum_list vals"
  using assms
proof (induction idx arbitrary: row vals)
  case Nil
  then show ?case by (simp add: put_Nil)
next
  case (Cons a idx)
  from Cons.prems(2) obtain v vs where vals: "vals = v # vs" and l: "length vs = length idx"
    by (cases vals) auto
  have a: "a < length row" "row ! a = 0" "a \<notin> set idx" using Cons.prems by simp_all
  have "sum_list (put (row[a := v]) idx vs) = sum_list (row[a := v]) + sum_list vs"
    using Cons.prems a l by (intro Cons.IH) (auto simp: list_all_iff nth_list_update)
  also have "sum_list (row[a := v]) = sum_list row + v"
    using a by (simp add: sum_list_update_real)
  finally show ?case by (simp add: vals put_Cons)
qed

lemma nonzero_put:
  fixes row :: vec
  assumes "distinct idx" and "length vals = length idx" and "list_all (\<lambda>j. j < length row) idx"
    and "list_all (\<lambda>j. row ! j = 0) idx" and "list_all (\<lambda>x. x \<noteq> 0) vals"
  shows "length (filter (\<lambda>x. x \<noteq> 0) (put row idx vals))
         = length (filter (\<lambda>x. x \<noteq> 0) row) + length idx"
  using assms
proof (induction idx arbitrary: row vals)
  case Nil
  then show ?case by (simp add: put_Nil)
next
  case (Cons a idx)
  from Cons.prems(2) obtain v vs where vals: "vals = v # vs" and l: "length vs = length idx"
    by (cases vals) auto
  have a: "a < length row" "row ! a = 0" "a \<notin> set idx" "v \<noteq> 0"
    using Cons.prems by (simp_all add: vals)
  have "length (filter (\<lambda>x. x \<noteq> 0) (put (row[a := v]) idx vs))
        = length (filter (\<lambda>x. x \<noteq> 0) (row[a := v])) + length idx"
    using Cons.prems a l by (intro Cons.IH) (auto simp: list_all_iff nth_list_update vals)
  also have "length (filter (\<lambda>x. x \<noteq> 0) (row[a := v]))
        = Suc (length (filter (\<lambda>x. x \<noteq> 0) row))"
  proof -
    have "{i. i < length row \<and> (row[a := v]) ! i \<noteq> 0}
          = insert a {i. i < length row \<and> row ! i \<noteq> 0}"
      using a by (auto simp: nth_list_update)
    moreover have "a \<notin> {i. i < length row \<and> row ! i \<noteq> 0}" using a by simp
    moreover have "finite {i. i < length row \<and> row ! i \<noteq> 0}" by simp
    ultimately show ?thesis
      by (simp add: length_filter_conv_card)
  qed
  finally show ?case by (simp add: vals put_Cons)
qed

lemma put_entry_cases:
  assumes "length vals = length idx" and "j < length row"
  shows "put row idx vals ! j = row ! j \<or> put row idx vals ! j \<in> set vals"
  using assms
proof (induction idx arbitrary: row vals)
  case Nil
  then show ?case by (simp add: put_Nil)
next
  case (Cons a idx)
  from Cons.prems(1) obtain v vs where vals: "vals = v # vs" and l: "length vs = length idx"
    by (cases vals) auto
  from Cons.IH [of vs "row[a := v]"] l Cons.prems(2)
  have "put (row[a := v]) idx vs ! j = (row[a := v]) ! j \<or> put (row[a := v]) idx vs ! j \<in> set vs"
    by simp
  then show ?case
    using Cons.prems(2) by (cases "j = a") (auto simp: vals put_Cons)
qed

lemma SimulateData_rows_on_simplex:
  assumes ok: "generators_ok g"
    and pos: "\<And>sz s vs s'. uniform g sz s = (vs, s') \<Longrightarrow> list_all (\<lambda>x. x \<noteq> 0) vs"
    and l: "1 \<le> l"
    and r: "SimulateData g N_c N_t mu Sigma_c l u Gamma_e st = Inr ((X_c, X_t, W), st')"
    and i: "i < N_t"
  shows "\<exists>ws. W ! i = map Some ws \<and> length ws = N_c \<and> sum_list ws = 1 \<and>
           list_all (\<lambda>x. 0 \<le> x \<and> x \<le> 1) ws \<and>
           l \<le> length (filter (\<lambda>x. x \<noteq> 0) ws) \<and> length (filter (\<lambda>x. x \<noteq> 0) ws) < u"
proof -
  from SimulateData_rows [OF ok r] i obtain k idx vals t t' s s' where
    k: "l \<le> k" "k < u" and
    smp: "sample g N_c k t = Inr (idx, t')" and
    uni: "uniform g k s = (vals, s')" and
    row: "W ! i = put (replicate N_c (Some 0)) idx (standardize vals)"
    by blast
  have idx: "length idx = k" "distinct idx" "list_all (\<lambda>j. j < N_c) idx"
    using sample_distinct [OF ok smp] by simp_all
  have vals: "length vals = k" "list_all (\<lambda>x. 0 \<le> x \<and> x < 1) vals"
    using uniform_range [OF ok uni] by simp_all
  have nz: "list_all (\<lambda>x. x \<noteq> 0) vals" using pos [OF uni] .
  have each: "0 < x" if "x \<in> set vals" for x
    using that vals(2) nz by (fastforce simp: list_all_iff)
  let ?S = "sum_list vals"
  have "vals \<noteq> []" using vals(1) k l by auto
  then obtain x0 where x0: "x0 \<in> set vals" by (cases vals) auto
  have nonneg: "\<forall>x \<in> set vals. 0 \<le> x" using each by (auto intro: less_imp_le)
  have "x0 \<le> ?S" using x0 nonneg by (intro member_le_sum_list) auto
  with each [OF x0] have S: "0 < ?S" by simp
  let ?q = "map (\<lambda>x. x / ?S) vals"
  let ?ws = "put (replicate N_c 0) idx ?q"
  have st: "standardize vals = map Some ?q"
    using S by (simp add: standardize_def fdiv_def)
  have W: "W ! i = map Some ?ws"
    unfolding row st using put_map [of Some "replicate N_c (0::real)" idx ?q] by simp
  have len: "length ?ws = N_c" by (simp add: length_put)
  have lq: "length ?q = length idx" using idx vals by simp
  have in_range: "list_all (\<lambda>j. j < length (replicate N_c (0::real))) idx"
    using idx(3) by simp
  have zeros: "list_all (\<lambda>j. replicate N_c (0::real) ! j = 0) idx"
    using idx(3) by (simp add: list_all_iff)
  have "sum_list ?q = ?S / ?S"
    by (rule sum_list_divide)
  then have sq: "sum_list ?q = 1" using S by simp
  have z0: "sum_list (replicate N_c (0::real)) = 0" by (induction N_c) simp_all
  have sum: "sum_list ?ws = 1"
    using sum_list_put [OF idx(2) lq in_range zeros] sq z0 by simp
  have qnz: "list_all (\<lambda>x. x \<noteq> 0) ?q"
    using each S by (fastforce simp: list_all_iff)
  have f0: "filter (\<lambda>x. x \<noteq> 0) (replicate N_c (0::real)) = []" by (induction N_c) simp_all
  have cnt: "length (filter (\<lambda>x. x \<noteq> 0) ?ws) = k"
    using nonzero_put [OF idx(2) lq in_range zeros qnz] idx(1) f0 by simp
  have q01: "0 \<le> y \<and> y \<le> 1" if "y \<in> set ?q" for y
  proof -
    from that obtain x where x: "x \<in> set vals" "y = x / ?S" by auto
    have "x \<le> ?S" using x(1) nonneg by (intro member_le_sum_list) auto
    with each [OF x(1)] S x(2) show ?thesis by simp
  qed
  have box: "list_all (\<lambda>x. 0 \<le> x \<and> x \<le> 1) ?ws"
    unfolding list_all_length
  proof (intro allI impI)
    fix j assume j: "j < length ?ws"
    then have "j < length (replicate N_c (0::real))" by (simp add: length_put)
    from put_entry_cases [OF lq this]
    have "?ws ! j = 0 \<or> ?ws ! j \<in> set ?q" using j by (simp add: length_put)
    with q01 show "0 \<le> ?ws ! j \<and> ?ws ! j \<le> 1" by auto
  qed
  from W len sum box cnt k show ?thesis by blast
qed

text \<open>
  Claim C2 fails on the code. \<open>np.random.uniform\<close> draws from the half-open range that
  includes 0. With \<open>N_c = 2\<close>, \<open>N_t = 1\<close>, \<open>l = 2\<close>, \<open>u = 3\<close> and the draws \<open>(0, 1/2)\<close> the
  call returns the row \<open>(0, 1)\<close>, which has one entry that is not zero, fewer than \<open>l\<close>.
\<close>

theorem SimulateData_zero_draw:
  "SimulateData replay 2 1 [0] [[1]] 2 3 [[1]]
     (\<lparr>normal_draws = [[[3], [5]], [[1]]], integer_draws = [[2]],
        uniform_draws = [[0, 1 / 2]]\<rparr>, [[0, 1]])
   = Inr (([[3], [5]], [[Some 6]], [[Some 0, Some 1]]),
          \<lparr>normal_draws = [], integer_draws = [], uniform_draws = []\<rparr>, []) \<and>
   length (filter (\<lambda>w. w \<noteq> Some 0) [Some 0, Some (1 :: real)]) = 1"
  by code_simp

subsection \<open>The treated units\<close>

text \<open>On finite weights \<open>np.dot(W, X_c)\<close> is the matrix whose row \<open>i\<close> is \<open>X_c.T\<close> applied
  to row \<open>i\<close> of \<open>W\<close>, the product \<open>W \<cdot> X_c\<close> of the noiseless fit above.\<close>

lemma fdot_finite: "fdot (map Some w) c = Some (dot c w)"
proof (induction w arbitrary: c)
  case Nil
  then show ?case by (simp add: fdot_def dot_def)
next
  case (Cons a w)
  show ?case
  proof (cases c)
    case Nil
    then show ?thesis by (simp add: fdot_def dot_def)
  next
    case (Cons b c')
    with Cons.IH [of c'] show ?thesis
      by (simp add: fdot_def dot_def fadd_def fmul_def mult.commute)
  qed
qed

lemma np_dot_finite:
  "length X = N_c \<Longrightarrow>
     np_dot N_c (map (map Some) W) X = Inr (map (map Some) (map (matvec (transpose_m X)) W))"
  by (simp add: np_dot_def matvec_def fdot_finite)

lemma np_add_Inr:
  assumes "np_add P E = Inr X"
  shows "X = map2 (map2 (\<lambda>a b. fadd a (Some b))) P E \<and> length X = length E \<and>
         (\<forall>i<length E. length (X ! i) = length (E ! i))"
proof -
  from assms have l: "length P = length E" and r: "list_all2 (\<lambda>p e. length p = length e) P E"
    and x: "X = map2 (map2 (\<lambda>a b. fadd a (Some b))) P E"
    by (auto simp: np_add_def split: if_splits)
  have "length (X ! i) = length (E ! i)" if "i < length E" for i
    using that l r by (simp add: x list_all2_conv_all_nth)
  with l x show ?thesis by simp
qed

text \<open>
  Claim C6. For a call that returns, \<open>X_t\<close> is the entrywise sum of the product
  \<open>W \<cdot> X_c\<close> and of the array \<open>noise\<close> that numpy's multivariate normal sampler returned
  for the mean \<open>zeros(k)\<close>, the covariance \<open>Gamma\<close> and the size \<open>N_t\<close> (one draw per row;
  that the draws are independent and normal is the sampler's own contract). \<open>X_t\<close> has
  \<open>N_t\<close> rows of \<open>k = len(mu)\<close> entries, and \<open>X_c\<close> has \<open>N_c\<close> rows of \<open>k\<close> entries.
\<close>

theorem SimulateData_treated_units:
  assumes "generators_ok g"
    and "SimulateData g N_c N_t mu Sigma_c l u Gamma_e st = Inr ((X_c, X_t, W), st')"
  shows "\<exists>noise s s'.
           multivariate_normal g (replicate (length mu) 0) Gamma_e N_t s = Inr (noise, s') \<and>
           X_t = map2 (map2 (\<lambda>a b. fadd a (Some b)))
                   (map (\<lambda>w. map (\<lambda>c. fdot w c) (transpose_m X_c)) W) noise \<and>
           length X_t = N_t \<and> list_all (\<lambda>r. length r = length mu) X_t \<and>
           length X_c = N_c \<and> list_all (\<lambda>r. length r = length mu) X_c"
proof -
  from assms(2) obtain s1 s3 P noise s4 where
    xc: "multivariate_normal g mu Sigma_c N_c (fst st) = Inr (X_c, s1)" and
    p: "np_dot N_c W X_c = Inr P" and
    e: "multivariate_normal g (replicate (length mu) 0) Gamma_e N_t s3 = Inr (noise, s4)" and
    a: "np_add P noise = Inr X_t"
    by (rule SimulateData_Inr)
  have c: "length X_c = N_c" "list_all (\<lambda>r. length r = length mu) X_c"
    using normal_shape [OF assms(1) xc] by simp_all
  have n: "length noise = N_t" "list_all (\<lambda>r. length r = length mu) noise"
    using normal_shape [OF assms(1) e] by simp_all
  from p have P: "P = map (\<lambda>w. map (\<lambda>c. fdot w c) (transpose_m X_c)) W"
    by (auto simp: np_dot_def split: if_splits)
  note x = np_add_Inr [OF a]
  note xl = x [THEN conjunct2, THEN conjunct1] and xr = x [THEN conjunct2, THEN conjunct2]
  have "list_all (\<lambda>r. length r = length mu) X_t"
    unfolding list_all_length using xl xr n by (simp add: list_all_length)
  moreover have "X_t = map2 (map2 (\<lambda>a b. fadd a (Some b)))
                   (map (\<lambda>w. map (\<lambda>c. fdot w c) (transpose_m X_c)) W) noise"
    using x P by simp
  ultimately show ?thesis using xl n c e by blast
qed

theorem SimulateData_treated_units_witness:
  "generators_ok replay \<and>
   SimulateData replay 3 2 [0, 0] [[1, 0], [0, 1]] 1 3 [[1, 0], [0, 1]]
     (\<lparr>normal_draws = [[[3, 1], [5, 2], [4, 4]], [[1, 1], [0, 0]]], integer_draws = [[2, 1]],
        uniform_draws = [[1 / 4, 1 / 2], [3 / 4]]\<rparr>, [[2, 0], [1]])
   = Inr (([[3, 1], [5, 2], [4, 4]], [[Some (13 / 3), Some 3], [Some 5, Some 2]],
           [[Some (2 / 3), Some 0, Some (1 / 3)], [Some 0, Some 1, Some 0]]),
          \<lparr>normal_draws = [], integer_draws = [], uniform_draws = []\<rparr>, []) \<and>
   length [[Some (13 / 3), Some 3], [Some 5, Some (2 :: real)]] = 2"
proof -
  have h: "SimulateData replay 3 2 [0, 0] [[1, 0], [0, 1]] 1 3 [[1, 0], [0, 1]]
     (\<lparr>normal_draws = [[[3, 1], [5, 2], [4, 4]], [[1, 1], [0, 0]]], integer_draws = [[2, 1]],
        uniform_draws = [[1 / 4, 1 / 2], [3 / 4]]\<rparr>, [[2, 0], [1]])
   = Inr (([[3, 1], [5, 2], [4, 4]], [[Some (13 / 3), Some 3], [Some 5, Some 2]],
           [[Some (2 / 3), Some 0, Some (1 / 3)], [Some 0, Some 1, Some 0]]),
          \<lparr>normal_draws = [], integer_draws = [], uniform_draws = []\<rparr>, [])"
    by code_simp
  show ?thesis
    using replay_ok h SimulateData_treated_units [OF replay_ok h] by simp
qed

subsection \<open>The random source\<close>










section \<open>What a call of \<open>EstimateWeights\<close> leaves unchanged\<close>

lemma solve_units_at_frame:
  "solve_units_at solve xc xt wh todo h = (r, h') \<Longrightarrow>
     (\<forall>a. a \<noteq> wh \<longrightarrow> cells h' a = cells h a) \<and> next_free h' = next_free h"
proof (induction todo arbitrary: h)
  case Nil
  then show ?case by simp
next
  case (Cons i rest)
  show ?case
  proof (cases "\<exists>X_c X_t W_hat v W'. cells h xc = Some (Arr2 X_c) \<and> cells h xt = Some X_t \<and>
      cells h wh = Some (Arr2 W_hat) \<and> solve_unit solve X_c X_t i = Inr v \<and>
      set_row W_hat (length X_c) i v = Inr W'")
    case True
    then obtain X_c X_t W_hat v W' where
      c: "cells h xc = Some (Arr2 X_c)" "cells h xt = Some X_t" "cells h wh = Some (Arr2 W_hat)"
         "solve_unit solve X_c X_t i = Inr v" "set_row W_hat (length X_c) i v = Inr W'"
      by blast
    with Cons.prems
    have "solve_units_at solve xc xt wh rest (h\<lparr>cells := (cells h)(wh \<mapsto> Arr2 W')\<rparr>) = (r, h')"
      by simp
    from Cons.IH [OF this] show ?thesis by simp
  next
    case False
    with Cons.prems have "h' = h"
      by (auto split: option.splits ndarray.splits sum.splits)
    then show ?thesis by simp
  qed
qed

lemma solve_units_at_refines:
  assumes "wh \<noteq> xc" and "wh \<noteq> xt"
  shows "cells h xc = Some (Arr2 X_c) \<Longrightarrow> cells h xt = Some X_t \<Longrightarrow>
     cells h wh = Some (Arr2 W) \<Longrightarrow> solve_units_at solve xc xt wh todo h = (r, h') \<Longrightarrow>
     (case solve_units solve X_c X_t todo W of
        Inl e \<Rightarrow> r = Inl e
      | Inr W' \<Rightarrow> r = Inr () \<and> cells h' wh = Some (Arr2 W'))"
proof (induction todo arbitrary: h W)
  case Nil
  then show ?case by simp
next
  case (Cons i rest)
  show ?case
  proof (cases "solve_unit solve X_c X_t i")
    case (Inl e)
    with Cons.prems show ?thesis by simp
  next
    case v: (Inr v)
    show ?thesis
    proof (cases "set_row W (length X_c) i v")
      case (Inl e)
      with v Cons.prems show ?thesis by simp
    next
      case (Inr W1)
      let ?h1 = "h\<lparr>cells := (cells h)(wh \<mapsto> Arr2 W1)\<rparr>"
      from Cons.prems v Inr have "solve_units_at solve xc xt wh rest ?h1 = (r, h')"
        by simp
      moreover have "cells ?h1 xc = Some (Arr2 X_c)" "cells ?h1 xt = Some X_t"
        "cells ?h1 wh = Some (Arr2 W1)"
        using assms Cons.prems by simp_all
      ultimately have "case solve_units solve X_c X_t rest W1 of
          Inl e \<Rightarrow> r = Inl e | Inr W' \<Rightarrow> r = Inr () \<and> cells h' wh = Some (Arr2 W')"
        by (intro Cons.IH)
      with v Inr show ?thesis by simp
    qed
  qed
qed

lemma two_arrays_well_formed: "well_formed (two_arrays X_c X_t)"
  by (simp add: well_formed_def two_arrays_def)

text \<open>
  Claim C9. Let \<open>X_c\<close> and \<open>X_t\<close> be arrays of a well-formed memory. After a call of
  \<open>EstimateWeights\<close> on their addresses, whether it returns or raises, every array that
  existed before the call is unchanged, \<open>X_c\<close> and \<open>X_t\<close> among them. When the call returns,
  its result is an address that held no array before the call, different from the
  addresses of both arguments, and the array there is the estimate; when it raises, it
  raises what \<open>EstimateWeights\<close> on the values raises.
\<close>

theorem EstimateWeights_at_frame:
  assumes "well_formed h" and "cells h xc = Some (Arr2 X_c)" and "cells h xt = Some X_t"
    and "EstimateWeights_at solve xc xt h = (r, h')"
  shows "(\<forall>a. cells h a \<noteq> None \<longrightarrow> cells h' a = cells h a) \<and>
         cells h' xc = Some (Arr2 X_c) \<and> cells h' xt = Some X_t \<and>
         (\<forall>wh. r = Inr wh \<longrightarrow>
            cells h wh = None \<and> wh \<noteq> xc \<and> wh \<noteq> xt \<and>
            (\<exists>W_hat. EstimateWeights solve X_c X_t = Inr W_hat \<and>
                      cells h' wh = Some (Arr2 W_hat))) \<and>
         (\<forall>e. r = Inl e \<longrightarrow> EstimateWeights solve X_c X_t = Inl e)"
proof -
  let ?wh = "next_free h"
  let ?W0 = "replicate (n_treated X_t) (replicate (length X_c) (0::real))"
  let ?h1 = "h\<lparr>cells := (cells h)(?wh \<mapsto> Arr2 ?W0), next_free := Suc ?wh\<rparr>"
  obtain r0 where loop: "solve_units_at solve xc xt ?wh [0..<n_treated X_t] ?h1 = (r0, h')"
    and r: "r = (case r0 of Inl e \<Rightarrow> Inl e | Inr _ \<Rightarrow> Inr ?wh)"
    using assms(2,3,4)
    by (auto simp: EstimateWeights_at_def np_zeros_def Let_def split: prod.splits sum.splits)
  have fresh: "cells h ?wh = None" using assms(1) by (simp add: well_formed_def)
  with assms(2,3) have ne: "?wh \<noteq> xc" "?wh \<noteq> xt" by auto
  note fr = solve_units_at_frame [OF loop]
  have frame: "\<forall>a. cells h a \<noteq> None \<longrightarrow> cells h' a = cells h a"
  proof (intro allI impI)
    fix a assume "cells h a \<noteq> None"
    with fresh have "a \<noteq> ?wh" by auto
    with fr show "cells h' a = cells h a" by simp
  qed
  have "case solve_units solve X_c X_t [0..<n_treated X_t] ?W0 of
          Inl e \<Rightarrow> r0 = Inl e | Inr W' \<Rightarrow> r0 = Inr () \<and> cells h' ?wh = Some (Arr2 W')"
    using ne assms(2,3) by (intro solve_units_at_refines [OF ne _ _ _ loop]) simp_all
  then have ref: "case EstimateWeights solve X_c X_t of
          Inl e \<Rightarrow> r0 = Inl e | Inr W' \<Rightarrow> r0 = Inr () \<and> cells h' ?wh = Some (Arr2 W')"
    by (simp add: EstimateWeights_def Let_def)
  have ok: "\<forall>wh. r = Inr wh \<longrightarrow>
            cells h wh = None \<and> wh \<noteq> xc \<and> wh \<noteq> xt \<and>
            (\<exists>W_hat. EstimateWeights solve X_c X_t = Inr W_hat \<and>
                      cells h' wh = Some (Arr2 W_hat))"
    using r ref fresh ne by (auto split: sum.splits)
  have err: "\<forall>e. r = Inl e \<longrightarrow> EstimateWeights solve X_c X_t = Inl e"
    using r ref by (auto split: sum.splits)
  from frame assms(2,3) have "cells h' xc = Some (Arr2 X_c)" "cells h' xt = Some X_t"
    by simp_all
  with frame ok err show ?thesis by blast
qed

theorem EstimateWeights_at_frame_witness:
  "well_formed (two_arrays [[2, 3], [1, 1]] (Arr2 [[5, 7], [0, 0]])) \<and>
   fst (EstimateWeights_at first_vertex 0 1 (two_arrays [[2, 3], [1, 1]] (Arr2 [[5, 7], [0, 0]])))
     = Inr 2 \<and>
   cells (snd (EstimateWeights_at first_vertex 0 1
      (two_arrays [[2, 3], [1, 1]] (Arr2 [[5, 7], [0, 0]])))) 2 = Some (Arr2 [[1, 0], [1, 0]]) \<and>
   cells (snd (EstimateWeights_at first_vertex 0 1
      (two_arrays [[2, 3], [1, 1]] (Arr2 [[5, 7], [0, 0]])))) 0 = Some (Arr2 [[2, 3], [1, 1]]) \<and>
   cells (snd (EstimateWeights_at first_vertex 0 1
      (two_arrays [[2, 3], [1, 1]] (Arr2 [[5, 7], [0, 0]])))) 1 = Some (Arr2 [[5, 7], [0, 0]])"
proof -
  let ?h = "two_arrays [[2, 3], [1, 1]] (Arr2 [[5, 7], [0, 0]])"
  have h1: "well_formed ?h" by (rule two_arrays_well_formed)
  have h2: "cells ?h 0 = Some (Arr2 [[2, 3], [1, 1]])" by (simp add: two_arrays_def)
  have h3: "cells ?h 1 = Some (Arr2 [[5, 7], [0, 0]])" by (simp add: two_arrays_def)
  have h4: "EstimateWeights_at first_vertex 0 1 ?h
      = (fst (EstimateWeights_at first_vertex 0 1 ?h), snd (EstimateWeights_at first_vertex 0 1 ?h))"
    by simp
  have r: "fst (EstimateWeights_at first_vertex 0 1 ?h) = Inr 2" by code_simp
  have w: "cells (snd (EstimateWeights_at first_vertex 0 1 ?h)) 2 = Some (Arr2 [[1, 0], [1, 0]])"
    by code_simp
  show ?thesis
    using h1 r w EstimateWeights_at_frame [OF h1 h2 h3 h4] by simp
qed

end
